theory Spec2Isabelle
  imports Complex_Main
begin

section \<open>Values on the wire\<close>

text \<open>
  The client is Python: requests carry parameters of any JSON shape, and inbound frames are
  JSON documents. Numbers are kept as rationals (the rounding of Python floats is not
  modelled); Python's truth test on a value is \<open>truthy\<close>.
\<close>

datatype json =
    JNull
  | JBool bool
  | JNum rat
  | JStr string
  | JList "json list"
  | JDict "(string \<times> json) list"

fun truthy :: "json \<Rightarrow> bool" where
  "truthy JNull = False"
| "truthy (JBool b) = b"
| "truthy (JNum n) = (n \<noteq> 0)"
| "truthy (JStr s) = (s \<noteq> [])"
| "truthy (JList xs) = (xs \<noteq> [])"
| "truthy (JDict kvs) = (kvs \<noteq> [])"

text \<open>\<open>d.get(k, None)\<close> on a parsed JSON object.\<close>

definition dict_get :: "(string \<times> json) list \<Rightarrow> string \<Rightarrow> json" where
  "dict_get d k = (case map_of d k of None \<Rightarrow> JNull | Some v \<Rightarrow> v)"

datatype error =
    IndexError
  | KeyError
  | TypeError
  | ValueError
  | AttributeError
  | HTTPError
  | JSONError
  | TimeoutError
  | WebSocketError
  | PyException string
  | SensorHistoryRequestError string

section \<open>Channel requests\<close>

text \<open>
  Modelled from the spec: the class \<open>JSONRPCRequest\<close> lives in \<open>request.py\<close>, which is
  not among the sources. A Channel Request is \<open>{method, params, id}\<close>, immutable, with a
  unique id; its identity for deduplication is derived from \<open>(method, params)\<close> only, which is
  what \<open>method_and_params_hash\<close> returns here. Two Python request objects are the same object
  exactly when the records are equal (ids are unique).
\<close>

record request =
  method' :: string
  params :: "json list"
  req_id :: string

definition JSONRPCRequest :: "string \<Rightarrow> string \<Rightarrow> json list \<Rightarrow> request" where
  "JSONRPCRequest new_id m ps = \<lparr>method' = m, params = ps, req_id = new_id\<rparr>"

definition method_and_params_hash :: "request \<Rightarrow> string \<times> json list" where
  "method_and_params_hash r = (method' r, params r)"

section \<open>The subscription ledger: \<open>_cache_jsonrpc_request\<close>\<close>

text \<open>\<open>str.startswith\<close>.\<close>

definition startswith :: "string \<Rightarrow> string \<Rightarrow> bool" where
  "startswith s p = (take (length p) s = p)"

text \<open>\<open>xs[i]\<close> for a literal index \<open>i \<ge> 0\<close>: IndexError out of range.\<close>

definition index :: "'a list \<Rightarrow> nat \<Rightarrow> error + 'a" where
  "index xs i = (if i < length xs then Inr (xs ! i) else Inl IndexError)"

text \<open>\<open>list.remove(x)\<close>: drops the first element equal to \<open>x\<close>, ValueError when there is none.\<close>

definition list_remove :: "'a \<Rightarrow> 'a list \<Rightarrow> error + 'a list" where
  "list_remove x xs = (if x \<in> set xs then Inr (remove1 x xs) else Inl ValueError)"

text \<open>The final loop \<open>for req in requests_to_remove: self._ws_jsonrpc_cache.remove(req)\<close>.\<close>

fun remove_requests :: "request list \<Rightarrow> request list \<Rightarrow> error + request list" where
  "remove_requests [] cache = Inr cache"
| "remove_requests (r # rs) cache =
     (case list_remove r cache of
        Inl e \<Rightarrow> Inl e
      | Inr cache' \<Rightarrow> remove_requests rs cache')"

text \<open>
  The loop of the second branch: collect the cached requests of the same method whose
  positions 0 and 1 of \<open>params\<close> agree with the new request's. The conjunction
  short-circuits, so \<open>req.params[0]\<close> is only read for a request of the same method; each
  index can raise.
\<close>

fun strategy_matches :: "request \<Rightarrow> request list \<Rightarrow> error + request list" where
  "strategy_matches new [] = Inr []"
| "strategy_matches new (r # rs) =
     (if method' r = method' new then
        (case index (params r) 0 of
           Inl e \<Rightarrow> Inl e
         | Inr r0 \<Rightarrow>
            (case index (params new) 0 of
               Inl e \<Rightarrow> Inl e
             | Inr n0 \<Rightarrow>
                if r0 = n0 then
                  (case index (params r) 1 of
                     Inl e \<Rightarrow> Inl e
                   | Inr r1 \<Rightarrow>
                      (case index (params new) 1 of
                         Inl e \<Rightarrow> Inl e
                       | Inr n1 \<Rightarrow>
                          (case strategy_matches new rs of
                             Inl e \<Rightarrow> Inl e
                           | Inr ms \<Rightarrow> Inr (if r1 = n1 then r # ms else ms))))
                else strategy_matches new rs))
      else strategy_matches new rs)"

text \<open>The loop of the third branch: is there a cached request with the same hash?\<close>

fun duplicate_found :: "request \<Rightarrow> request list \<Rightarrow> bool" where
  "duplicate_found new [] = False"
| "duplicate_found new (r # rs) =
     (if method_and_params_hash r = method_and_params_hash new then True
      else duplicate_found new rs)"

text \<open>
  \<open>_cache_jsonrpc_request\<close> on the list \<open>_ws_jsonrpc_cache\<close>. An exception leaves the list
  as it was: every index is read before the first removal.
\<close>

definition cache_jsonrpc_request :: "request \<Rightarrow> request list \<Rightarrow> error + request list" where
  "cache_jsonrpc_request jsonrpc_request cache =
     (if method' jsonrpc_request = ''unsubscribe'' then
        remove_requests
          (filter (\<lambda>req. method' req = ''subscribe'' \<and> params req = params jsonrpc_request) cache)
          cache
      else if \<not> startswith (method' jsonrpc_request) ''set_sampling_strat'' then
        Inr (if duplicate_found jsonrpc_request cache then cache else cache @ [jsonrpc_request])
      else
        (case index (params jsonrpc_request) 2 of
           Inl e \<Rightarrow> Inl e
         | Inr strategy \<Rightarrow>
             if strategy = JStr ''none'' then
               (case strategy_matches jsonrpc_request cache of
                  Inl e \<Rightarrow> Inl e
                | Inr requests_to_remove \<Rightarrow> remove_requests requests_to_remove cache)
             else
               Inr (if duplicate_found jsonrpc_request cache then cache
                    else cache @ [jsonrpc_request])))"

text \<open>
  The ledger states the client can reach: the empty list of the constructor (and of
  \<open>disconnect\<close>), and whatever \<open>_cache_jsonrpc_request\<close> makes of a reachable list; a call
  that raises leaves the list unchanged.
\<close>

inductive reachable_cache :: "request list \<Rightarrow> bool" where
  empty_cache: "reachable_cache []"
| recorded: "reachable_cache cache \<Longrightarrow> cache_jsonrpc_request r cache = Inr cache' \<Longrightarrow>
     reachable_cache cache'"

text \<open>
  The test of the second branch's loop, as a predicate on a cached request: same method and
  the same values at positions 0 and 1 of \<open>params\<close>.
\<close>

definition same_sensor :: "request \<Rightarrow> request \<Rightarrow> bool" where
  "same_sensor new r \<longleftrightarrow>
     method' r = method' new \<and> index (params r) 0 = index (params new) 0 \<and>
     index (params r) 1 = index (params new) 1"

text \<open>
  A request that takes the third rule of the ledger ("any other call"): not an unsubscribe and
  not a strategy call whose strategy, at position 2, is the clearing value \<open>none\<close>.
\<close>

definition other_call :: "request \<Rightarrow> bool" where
  "other_call r \<longleftrightarrow>
     method' r \<noteq> ''unsubscribe'' \<and>
     (startswith (method' r) ''set_sampling_strat'' \<longrightarrow>
        (case index (params r) 2 of Inl e \<Rightarrow> False | Inr s \<Rightarrow> s \<noteq> JStr ''none''))"

text \<open>
  The requests that the client itself records: \<open>subscribe\<close> and \<open>unsubscribe\<close> build
  a request of two parameters, \<open>set_sampling_strategy\<close> and \<open>set_sampling_strategies\<close>
  one of four. The ledgers that these calls can build, from the empty list of the
  constructor and of \<open>disconnect\<close>.
\<close>

definition api_request :: "request \<Rightarrow> bool" where
  "api_request r \<longleftrightarrow>
     (method' r = ''subscribe'' \<or> method' r = ''unsubscribe'') \<and> length (params r) = 2 \<or>
     (method' r = ''set_sampling_strategy'' \<or> method' r = ''set_sampling_strategies'') \<and>
       length (params r) = 4"

inductive api_ledger :: "request list \<Rightarrow> bool" where
  new_ledger: "api_ledger []"
| call_recorded: "api_ledger cache \<Longrightarrow> api_request r \<Longrightarrow>
     cache_jsonrpc_request r cache = Inr cache' \<Longrightarrow> api_ledger cache'"

section \<open>The client object\<close>

text \<open>
  A \<open>tornado.gen.Future\<close> is an object shared between the caller that awaits it and the
  map \<open>_pending_requests\<close>; the futures live in a store, and an address is an index into
  it.
\<close>

datatype future = Pending | Done json | Failed error

text \<open>The two named tuples of samples, and the field \<open>timestamp\<close> both have.\<close>

datatype sample =
    SensorSample rat json json
  | SensorSampleValueTs rat rat json json

fun timestamp :: "sample \<Rightarrow> rat" where
  "timestamp (SensorSample t v s) = t"
| "timestamp (SensorSampleValueTs t vt v s) = t"

text \<open>
  The per-query dictionary \<open>state\<close> of \<open>sensor_history\<close>. \<open>done_event\<close> is whether the
  \<open>tornado.locks.Event\<close> is set; \<open>include_value_ts\<close> holds whatever value the caller
  passed, tested for truth when a sample arrives.
\<close>

record history_state =
  sensor :: string
  done_event :: bool
  num_samples_pending :: rat
  include_value_ts :: json
  samples :: "sample list"

datatype level = DEBUG | INFO | WARN | ERROR | EXCEPTION

datatype log_arg = Value json | Request request | Failure error

type_synonym log_entry = "level \<times> string \<times> log_arg list"

text \<open>
  The fields of \<open>KATPortalClient\<close> that the channel layer uses, followed by what the client
  does to the world outside: the frames written to each connection, the connections closed,
  the calls to \<open>websocket_connect\<close>, the retries scheduled with \<open>call_later\<close>, the messages
  handed to the update callback, the chunked-download requests fetched, the log, and the
  wall clock. A connection is named by the number of the \<open>websocket_connect\<close> call that
  opened it. The serialised form of a request is made by \<open>request.py\<close>; the record of a
  write keeps the request itself.
\<close>

record client =
  ws :: "nat option"
  ws_connecting_lock :: bool
  on_update :: bool
  pending_requests :: "string \<rightharpoonup> nat"
  sensor_history_states :: "string \<rightharpoonup> history_state"
  disconnect_issued :: bool
  ws_jsonrpc_cache :: "request list"
  heart_beat_timer :: bool
  futures :: "future list"
  written :: "(nat \<times> request) list"
  closed_connections :: "nat list"
  connect_attempts :: nat
  retries_scheduled :: nat
  callbacks :: "json list"
  fetched :: "(string \<times> json) list list"
  logger :: "log_entry list"
  now :: rat

definition MAX_SAMPLES_PER_HISTORY_QUERY :: nat where
  "MAX_SAMPLES_PER_HISTORY_QUERY = 1000000"

definition SAMPLE_HISTORY_CHUNK_SIZE :: nat where
  "SAMPLE_HISTORY_CHUNK_SIZE = 43200"

definition SAMPLE_HISTORY_REQUEST_MULTIPLIER_TO_SEC :: rat where
  "SAMPLE_HISTORY_REQUEST_MULTIPLIER_TO_SEC = 1000"

text \<open>The client as \<open>__init__\<close> leaves it.\<close>

definition init :: "bool \<Rightarrow> client" where
  "init on_update_callback =
     \<lparr>ws = None, ws_connecting_lock = False, on_update = on_update_callback,
      pending_requests = Map.empty, sensor_history_states = Map.empty,
      disconnect_issued = False, ws_jsonrpc_cache = [], heart_beat_timer = False,
      futures = [], written = [], closed_connections = [], connect_attempts = 0,
      retries_scheduled = 0, callbacks = [], fetched = [], logger = [], now = 0\<rparr>"

definition logging :: "level \<Rightarrow> string \<Rightarrow> log_arg list \<Rightarrow> client \<Rightarrow> client" where
  "logging lvl text args c = c\<lparr>logger := logger c @ [(lvl, text, args)]\<rparr>"

definition is_connected :: "client \<Rightarrow> bool" where
  "is_connected c = (ws c \<noteq> None)"

subsection \<open>The correlator: \<open>_send\<close> and \<open>_process_json_rpc_message\<close>\<close>

definition future_state :: "client \<Rightarrow> nat \<Rightarrow> future" where
  "future_state c f = (if f < length (futures c) then futures c ! f else Pending)"

definition set_result :: "nat \<Rightarrow> json \<Rightarrow> client \<Rightarrow> client" where
  "set_result f v c = c\<lparr>futures := (futures c)[f := Done v]\<rparr>"

definition set_exception :: "nat \<Rightarrow> error \<Rightarrow> client \<Rightarrow> client" where
  "set_exception f e c = c\<lparr>futures := (futures c)[f := Failed e]\<rparr>"

definition not_connected_msg :: string where
  "not_connected_msg = ''Failed to send request! Not connected.''"

text \<open>
  \<open>_send\<close> returns the future it creates. The test \<open>self.is_connected\<close> is the test
  that \<open>_ws\<close> is not \<open>None\<close>.
\<close>

definition send :: "request \<Rightarrow> client \<Rightarrow> nat \<times> client" where
  "send req c0 =
     (let future = length (futures c0);
          c = c0\<lparr>futures := futures c0 @ [Pending]\<rparr>
      in case ws c of
           Some conn \<Rightarrow>
             (future, c\<lparr>pending_requests := (pending_requests c)(req_id req \<mapsto> future),
                        written := written c @ [(conn, req)]\<rparr>)
         | None \<Rightarrow>
             (future, set_exception future (PyException not_connected_msg)
                        (logging ERROR not_connected_msg [] c)))"

text \<open>
  \<open>_process_json_rpc_message\<close>, for a parsed object \<open>msg\<close>. A Future object is always
  true, so \<open>if future\<close> asks whether the id was found.
\<close>

definition process_json_rpc_message :: "(string \<times> json) list \<Rightarrow> string \<Rightarrow> client \<Rightarrow> client" where
  "process_json_rpc_message msg msg_id c =
     (case pending_requests c msg_id of
        Some future \<Rightarrow>
          (let error = dict_get msg ''error'';
               result = dict_get msg ''result''
           in if truthy error then set_result future error c
              else set_result future result c)
      | None \<Rightarrow>
          logging ERROR ''Message received without a matching pending request!''
            [Value (JDict msg)] c)"

text \<open>The value a response resolves its future with.\<close>

definition reply_value :: "(string \<times> json) list \<Rightarrow> json" where
  "reply_value msg =
     (if truthy (dict_get msg ''error'') then dict_get msg ''error''
      else dict_get msg ''result'')"

subsection \<open>\<open>disconnect\<close>\<close>

definition disconnect :: "client \<Rightarrow> client" where
  "disconnect c0 =
     (let c = (if heart_beat_timer c0 then c0\<lparr>heart_beat_timer := False\<rparr> else c0);
          c = c\<lparr>disconnect_issued := True, ws_jsonrpc_cache := []\<rparr>;
          c = logging DEBUG ''Cleared JSONRPCRequests cache.'' [] c
      in case ws c of
           Some conn \<Rightarrow>
             logging DEBUG ''Disconnected client websocket.'' []
               (c\<lparr>closed_connections := closed_connections c @ [conn], ws := None\<rparr>)
         | None \<Rightarrow> c)"

subsection \<open>Data-plane publications: \<open>_process_redis_message\<close>\<close>

text \<open>\<open>x[key]\<close> with a string key, on a JSON value.\<close>

fun subscript :: "json \<Rightarrow> string \<Rightarrow> error + json" where
  "subscript (JDict d) k = (case map_of d k of None \<Rightarrow> Inl KeyError | Some v \<Rightarrow> Inr v)"
| "subscript v k = Inl TypeError"

text \<open>\<open>sub in s\<close> on strings.\<close>

fun contains :: "string \<Rightarrow> string \<Rightarrow> bool" where
  "contains [] sub = (sub = [])"
| "contains (ch # s) sub = (startswith (ch # s) sub \<or> contains s sub)"

text \<open>\<open>key in x\<close> with a string key, on a JSON value.\<close>

fun py_in :: "string \<Rightarrow> json \<Rightarrow> error + bool" where
  "py_in k (JDict d) = Inr (map_of d k \<noteq> None)"
| "py_in k (JList xs) = Inr (JStr k \<in> set xs)"
| "py_in k (JStr s) = Inr (contains s k)"
| "py_in k v = Inl TypeError"

text \<open>A number as Python's arithmetic takes it: a bool counts as 0 or 1.\<close>

fun as_number :: "json \<Rightarrow> error + rat" where
  "as_number (JNum n) = Inr n"
| "as_number (JBool b) = Inr (if b then 1 else 0)"
| "as_number v = Inl TypeError"

text \<open>
  The named tuple built from a row of six fields. Keyword arguments are evaluated in
  order, so the first division that fails decides the exception.
\<close>

definition make_sample :: "bool \<Rightarrow> json list \<Rightarrow> error + sample" where
  "make_sample with_value_ts row =
     (case as_number (row ! 0) of
        Inl e \<Rightarrow> Inl e
      | Inr t \<Rightarrow>
          if with_value_ts then
            (case as_number (row ! 1) of
               Inl e \<Rightarrow> Inl e
             | Inr vt \<Rightarrow>
                 Inr (SensorSampleValueTs (t / SAMPLE_HISTORY_REQUEST_MULTIPLIER_TO_SEC)
                        (vt / SAMPLE_HISTORY_REQUEST_MULTIPLIER_TO_SEC) (row ! 3) (row ! 5)))
          else
            Inr (SensorSample (t / SAMPLE_HISTORY_REQUEST_MULTIPLIER_TO_SEC) (row ! 3) (row ! 5)))"

text \<open>
  One element of \<open>msg_data\<close>: \<open>None\<close> when \<open>len(sample)\<close> is not 6. A string or an object
  of length 6 fails at its first index; a value without a length fails at \<open>len\<close>.
\<close>

fun read_row :: "bool \<Rightarrow> json \<Rightarrow> error + sample option" where
  "read_row with_value_ts (JList row) =
     (if length row = 6 then
        (case make_sample with_value_ts row of Inl e \<Rightarrow> Inl e | Inr s \<Rightarrow> Inr (Some s))
      else Inr None)"
| "read_row with_value_ts (JStr s) = (if length s = 6 then Inl TypeError else Inr None)"
| "read_row with_value_ts (JDict d) = (if length d = 6 then Inl KeyError else Inr None)"
| "read_row with_value_ts v = Inl TypeError"

text \<open>
  The loop over \<open>msg_data\<close>: it appends to \<open>state['samples']\<close> as it goes, so a row that
  raises leaves the samples before it in place.
\<close>

fun receive_rows ::
  "bool \<Rightarrow> json list \<Rightarrow> sample list \<Rightarrow> nat \<Rightarrow> error option \<times> sample list \<times> nat" where
  "receive_rows with_value_ts [] acc num_received = (None, acc, num_received)"
| "receive_rows with_value_ts (row # rows) acc num_received =
     (case read_row with_value_ts row of
        Inl e \<Rightarrow> (Some e, acc, num_received)
      | Inr None \<Rightarrow> receive_rows with_value_ts rows acc num_received
      | Inr (Some s) \<Rightarrow> receive_rows with_value_ts rows (acc @ [s]) (num_received + 1))"

text \<open>The inform message: the counter, then the completion signal.\<close>

definition receive_inform :: "json \<Rightarrow> history_state \<Rightarrow> error option \<times> history_state" where
  "receive_inform msg_data state =
     (case subscript msg_data ''inform_data'' of
        Inl e \<Rightarrow> (Some e, state)
      | Inr inform \<Rightarrow>
         (case subscript inform ''num_samples_to_be_published'' of
            Inl e \<Rightarrow> (Some e, state)
          | Inr num_new_samples \<Rightarrow>
             (case as_number num_new_samples of
                Inl e \<Rightarrow> (Some e, state)
              | Inr n \<Rightarrow>
                 (let state = state\<lparr>num_samples_pending := num_samples_pending state + n\<rparr>
                  in (case subscript inform ''done'' of
                        Inl e \<Rightarrow> (Some e, state)
                      | Inr d \<Rightarrow>
                          (None, if truthy d then state\<lparr>done_event := True\<rparr> else state))))))"

text \<open>What is done with \<open>msg_data\<close> for a namespace that has a history query state.\<close>

definition receive_history ::
  "json \<Rightarrow> json \<Rightarrow> string \<Rightarrow> history_state \<Rightarrow> client \<Rightarrow> error option \<times> client" where
  "receive_history msg_result msg_data namespace state c =
     (if (case msg_data of JDict d \<Rightarrow>
            map_of d ''inform_type'' = Some (JStr ''sample_history'') | _ \<Rightarrow> False)
      then
        (case receive_inform msg_data state of
           (err, state') \<Rightarrow>
             (err, c\<lparr>sensor_history_states := (sensor_history_states c)(namespace \<mapsto> state')\<rparr>))
      else
        (case msg_data of
           JList rows \<Rightarrow>
             (case receive_rows (truthy (include_value_ts state)) rows (samples state) 0 of
                (Some e, acc, num_received) \<Rightarrow>
                  (Some e, c\<lparr>sensor_history_states :=
                     (sensor_history_states c)(namespace \<mapsto> state\<lparr>samples := acc\<rparr>)\<rparr>)
              | (None, acc, num_received) \<Rightarrow>
                  (None, c\<lparr>sensor_history_states :=
                     (sensor_history_states c)(namespace \<mapsto>
                        state\<lparr>samples := acc,
                              num_samples_pending :=
                                num_samples_pending state - of_nat num_received\<rparr>)\<rparr>))
         | _ \<Rightarrow> (None, logging WARN ''Ignoring unexpected message: %s'' [Value msg_result] c)))"

text \<open>The tail of \<open>_process_redis_message\<close> and of the \<open>except\<close> branch: hand over or drop.\<close>

definition hand_to_callback :: "json \<Rightarrow> client \<Rightarrow> client" where
  "hand_to_callback m c =
     (if on_update c then c\<lparr>callbacks := callbacks c @ [m]\<rparr>
      else logging WARN ''Ignoring message (no on_update_callback): %s'' [Value m] c)"

text \<open>
  \<open>_process_redis_message\<close>. The first component is the exception it raises, if any, with
  the state as the exception leaves it.
\<close>

definition process_redis_message ::
  "(string \<times> json) list \<Rightarrow> string \<Rightarrow> client \<Rightarrow> error option \<times> client" where
  "process_redis_message msg msg_id c =
     (case subscript (JDict msg) ''result'' of
        Inl e \<Rightarrow> (Some e, c)
      | Inr msg_result \<Rightarrow>
          if msg_id = ''redis-pubsub-init'' then (None, c)
          else
            (case py_in ''msg_channel'' msg_result of
               Inl e \<Rightarrow> (Some e, c)
             | Inr False \<Rightarrow> (None, hand_to_callback msg_result c)
             | Inr True \<Rightarrow>
                (case subscript msg_result ''msg_channel'' of
                   Inl e \<Rightarrow> (Some e, c)
                 | Inr (JStr channel) \<Rightarrow>
                    (let namespace = takeWhile (\<lambda>ch. ch \<noteq> CHR '':'') channel
                     in (case sensor_history_states c namespace of
                           None \<Rightarrow> (None, hand_to_callback msg_result c)
                         | Some state \<Rightarrow>
                            (case subscript msg_result ''msg_data'' of
                               Inl e \<Rightarrow> (Some e, c)
                             | Inr msg_data \<Rightarrow>
                                 receive_history msg_result msg_data namespace state c)))
                 | Inr v \<Rightarrow> (Some AttributeError, c))))"

section \<open>Coroutines and the frames that arrive while they wait\<close>

text \<open>
  The client runs on one cooperative event loop: a coroutine runs until it awaits a result,
  and while it is suspended the loop delivers inbound frames to \<open>_websocket_message\<close> and
  may run the application's own calls. A coroutine is modelled as a function that is given
  the timed events of the world outside, consumes those delivered while it is suspended,
  and returns the rest.

  A frame is given by the outcome of the first three lines of \<open>_websocket_message\<close>'s
  \<open>try\<close> block, which belong to the JSON library: \<open>Malformed m\<close> when \<open>json.loads\<close> or
  \<open>msg['id']\<close> raises, \<open>m\<close> being the value of \<open>msg\<close> at that point, and
  \<open>Message msg_id msg\<close> for the parsed object and \<open>str(msg['id'])\<close> otherwise.
  \<open>Closed\<close> is the frame \<open>None\<close>.
\<close>

datatype frame =
    Closed
  | Malformed json
  | Message string "(string \<times> json) list"

datatype event =
    Inbound frame
  | Disconnect_called

type_synonym events = "(rat \<times> event) list"

text \<open>
  How a coroutine ends: it returns, it raises, it stays suspended for ever on a future that
  the events never resolve, or it meets an event whose handling starts a second coroutine
  beside the suspended one, which this model does not follow.
\<close>

datatype 'a outcome = Returned 'a | Raised error | Suspended | Not_modelled

text \<open>The \<open>except Exception\<close> branch of \<open>_websocket_message\<close>.\<close>

definition processing_failed :: "json \<Rightarrow> client \<Rightarrow> client" where
  "processing_failed m c =
     hand_to_callback m
       (logging EXCEPTION ''Error processing websocket message! {}'' [Value m] c)"

text \<open>
  \<open>_websocket_message\<close> for the frames it handles without awaiting anything: a closed
  channel after \<open>disconnect\<close>, a malformed frame, a publication and a JSON-RPC response.
  \<open>_process_redis_message\<close> and \<open>_process_json_rpc_message\<close> are coroutines called
  without \<open>yield\<close>: an exception inside them stays in the future they return, which is
  dropped, and never reaches the \<open>except\<close> branch. The result is \<open>None\<close> for the two
  frames that start a coroutine: a closed channel with no disconnect issued (reconnect) and
  a broker-reconnect notice (replay of the subscriptions).
\<close>

fun websocket_message_now :: "frame \<Rightarrow> client \<Rightarrow> client option" where
  "websocket_message_now Closed c =
     (let c = logging WARN ''Websocket server disconnected!'' [] c
      in if \<not> disconnect_issued c then None else Some c)"
| "websocket_message_now (Malformed m) c = Some (processing_failed m c)"
| "websocket_message_now (Message msg_id msg) c =
     (if startswith msg_id ''redis-pubsub'' then Some (snd (process_redis_message msg msg_id c))
      else if startswith msg_id ''redis-reconnect'' then None
      else Some (process_json_rpc_message msg msg_id c))"

text \<open>One event delivered while a coroutine is suspended.\<close>

fun deliver :: "event \<Rightarrow> client \<Rightarrow> client option" where
  "deliver (Inbound fr) c = websocket_message_now fr c"
| "deliver Disconnect_called c = Some (disconnect c)"

definition advance :: "rat \<Rightarrow> client \<Rightarrow> client" where
  "advance t c = c\<lparr>now := max (now c) t\<rparr>"

text \<open>
  \<open>yield future\<close>: events are delivered until the future is resolved; then the coroutine
  resumes with the result, or with the exception raised at the \<open>yield\<close>.
\<close>

fun await_future :: "nat \<Rightarrow> events \<Rightarrow> client \<Rightarrow> json outcome \<times> events \<times> client" where
  "await_future f [] c =
     (case future_state c f of
        Done v \<Rightarrow> (Returned v, [], c)
      | Failed e \<Rightarrow> (Raised e, [], c)
      | Pending \<Rightarrow> (Suspended, [], c))"
| "await_future f ((t, ev) # evs) c =
     (case future_state c f of
        Done v \<Rightarrow> (Returned v, (t, ev) # evs, c)
      | Failed e \<Rightarrow> (Raised e, (t, ev) # evs, c)
      | Pending \<Rightarrow>
         (case deliver ev (advance t c) of
            None \<Rightarrow> (Not_modelled, evs, advance t c)
          | Some c' \<Rightarrow> await_future f evs c'))"

subsection \<open>Replay of the ledger\<close>

text \<open>
  The loop of \<open>_resend_subscriptions_and_strategies\<close> and of \<open>_resend_subscriptions\<close>,
  over the list object the loop started on (\<open>disconnect\<close> rebinds the attribute to a new
  list and leaves this one alone). There is no \<open>try\<close> in the loop: an exception at the
  \<open>yield\<close> leaves it.
\<close>

fun resend :: "request list \<Rightarrow> events \<Rightarrow> client \<Rightarrow> unit outcome \<times> events \<times> client" where
  "resend [] evs c = (Returned (), evs, c)"
| "resend (req # reqs) evs c =
     (case send req (logging INFO ''Resending JSONRPCRequest %s'' [Request req] c) of
        (future, c1) \<Rightarrow>
          (case await_future future evs c1 of
             (Returned result, evs', c2) \<Rightarrow>
               resend reqs evs'
                 (logging INFO ''Resent JSONRPCRequest, with result: %s'' [Value result] c2)
           | (Raised e, evs', c2) \<Rightarrow> (Raised e, evs', c2)
           | (Suspended, evs', c2) \<Rightarrow> (Suspended, evs', c2)
           | (Not_modelled, evs', c2) \<Rightarrow> (Not_modelled, evs', c2)))"

definition resend_subscriptions_and_strategies ::
  "events \<Rightarrow> client \<Rightarrow> unit outcome \<times> events \<times> client" where
  "resend_subscriptions_and_strategies evs c = resend (ws_jsonrpc_cache c) evs c"

definition resend_subscriptions :: "events \<Rightarrow> client \<Rightarrow> unit outcome \<times> events \<times> client" where
  "resend_subscriptions evs c =
     resend (filter (\<lambda>req. method' req = ''subscribe'') (ws_jsonrpc_cache c)) evs c"

subsection \<open>\<open>_connect\<close> and \<open>connect\<close>\<close>

text \<open>The \<open>except Exception\<close> branch of \<open>_connect\<close>, with the exception caught.\<close>

definition connect_failed :: "bool \<Rightarrow> error \<Rightarrow> client \<Rightarrow> client" where
  "connect_failed reconnecting e c0 =
     (let c = logging EXCEPTION ''Could not connect websocket to %s'' [Failure e] c0
      in if reconnecting then
           (logging INFO ''Retrying connection in %s seconds...'' [] c)
             \<lparr>retries_scheduled := retries_scheduled c + 1\<rparr>
         else c)"

text \<open>The last statement inside the lock, and the release of the lock.\<close>

definition connect_done :: "bool \<Rightarrow> client \<Rightarrow> client" where
  "connect_done reconnecting c =
     (if \<not> is_connected c \<and> \<not> reconnecting then logging ERROR ''Failed to connect!'' [] c
      else c)\<lparr>ws_connecting_lock := False\<rparr>"

text \<open>
  The rest of the \<open>try\<close> block of \<open>_connect\<close> once \<open>websocket_connect\<close> has returned
  the connection, with the \<open>except\<close> branch for an exception of the replay: replay the
  ledger when reconnecting, then start the heartbeat.
\<close>

definition after_connect :: "bool \<Rightarrow> events \<Rightarrow> client \<Rightarrow> unit outcome \<times> events \<times> client" where
  "after_connect reconnecting evs c =
     (if reconnecting then
        (case resend_subscriptions_and_strategies evs c of
           (Returned u, evs', c') \<Rightarrow>
             (Returned (), evs',
              connect_done reconnecting
                ((logging INFO ''Reconnected :)'' [] c')\<lparr>heart_beat_timer := True\<rparr>))
         | (Raised e, evs', c') \<Rightarrow>
             (Returned (), evs', connect_done reconnecting (connect_failed reconnecting e c'))
         | (Suspended, evs', c') \<Rightarrow> (Suspended, evs', c')
         | (Not_modelled, evs', c') \<Rightarrow> (Not_modelled, evs', c'))
      else (Returned (), evs, connect_done reconnecting (c\<lparr>heart_beat_timer := True\<rparr>)))"

text \<open>
  \<open>_connect\<close>. \<open>accepted\<close> says whether \<open>websocket_connect\<close> succeeds;
  \<open>WebSocketError\<close> stands for whatever exception it raises when it does not. A caller that
  finds the lock taken waits for it; nothing in this model wakes it. A replay that stays
  suspended keeps the lock.
\<close>

definition connect' :: "bool \<Rightarrow> bool \<Rightarrow> events \<Rightarrow> client \<Rightarrow> unit outcome \<times> events \<times> client" where
  "connect' reconnecting accepted evs c0 =
     (if ws_connecting_lock c0 then (Suspended, evs, c0)
      else
        (let c = c0\<lparr>ws_connecting_lock := True, disconnect_issued := False\<rparr>
         in if is_connected c then (Returned (), evs, c\<lparr>ws_connecting_lock := False\<rparr>)
            else
              (let c = logging DEBUG ''Connecting to websocket %s'' [] c;
                   c = (if heart_beat_timer c then c\<lparr>heart_beat_timer := False\<rparr> else c);
                   c = c\<lparr>connect_attempts := connect_attempts c + 1\<rparr>
               in if \<not> accepted then
                    (Returned (), evs,
                     connect_done reconnecting (connect_failed reconnecting WebSocketError c))
                  else after_connect reconnecting evs (c\<lparr>ws := Some (connect_attempts c)\<rparr>))))"

definition connect :: "bool \<Rightarrow> events \<Rightarrow> client \<Rightarrow> unit outcome \<times> events \<times> client" where
  "connect accepted evs c = connect' False accepted evs c"

subsection \<open>\<open>_websocket_message\<close>\<close>

text \<open>
  \<open>_websocket_message\<close> as the channel calls it, with the coroutines it starts:
  \<open>accepted\<close> and the events are for them.
\<close>

fun websocket_message ::
  "frame \<Rightarrow> bool \<Rightarrow> events \<Rightarrow> client \<Rightarrow> unit outcome \<times> events \<times> client" where
  "websocket_message Closed accepted evs c0 =
     (let c = logging WARN ''Websocket server disconnected!'' [] c0
      in if \<not> disconnect_issued c then
           connect' True accepted evs
             (case ws c of
                Some conn \<Rightarrow> c\<lparr>closed_connections := closed_connections c @ [conn], ws := None\<rparr>
              | None \<Rightarrow> c)
         else (Returned (), evs, c))"
| "websocket_message (Malformed m) accepted evs c = (Returned (), evs, processing_failed m c)"
| "websocket_message (Message msg_id msg) accepted evs c =
     (if startswith msg_id ''redis-pubsub'' then
        (Returned (), evs, snd (process_redis_message msg msg_id c))
      else if startswith msg_id ''redis-reconnect'' then
        (case resend_subscriptions evs c of
           (Raised e, evs', c') \<Rightarrow> (Returned (), evs', processing_failed (JDict msg) c')
         | other \<Rightarrow> other)
      else (Returned (), evs, process_json_rpc_message msg msg_id c))"

subsection \<open>The calls that are recorded in the ledger\<close>

text \<open>
  The three statements that \<open>subscribe\<close>, \<open>unsubscribe\<close>, \<open>set_sampling_strategy\<close> and
  \<open>set_sampling_strategies\<close> share: send, await the result, record the request. The id of
  the new request is chosen by \<open>request.py\<close> and is a parameter here.
\<close>

definition send_and_cache :: "request \<Rightarrow> events \<Rightarrow> client \<Rightarrow> json outcome \<times> events \<times> client" where
  "send_and_cache req evs c =
     (case send req c of
        (future, c1) \<Rightarrow>
          (case await_future future evs c1 of
             (Returned result, evs', c2) \<Rightarrow>
               (case cache_jsonrpc_request req (ws_jsonrpc_cache c2) of
                  Inl e \<Rightarrow> (Raised e, evs', c2)
                | Inr cache \<Rightarrow> (Returned result, evs', c2\<lparr>ws_jsonrpc_cache := cache\<rparr>))
           | other \<Rightarrow> other))"

definition subscribe ::
  "string \<Rightarrow> json \<Rightarrow> json \<Rightarrow> events \<Rightarrow> client \<Rightarrow> json outcome \<times> events \<times> client" where
  "subscribe new_id namespace sub_strings =
     send_and_cache (JSONRPCRequest new_id ''subscribe'' [namespace, sub_strings])"

definition unsubscribe ::
  "string \<Rightarrow> json \<Rightarrow> json \<Rightarrow> events \<Rightarrow> client \<Rightarrow> json outcome \<times> events \<times> client" where
  "unsubscribe new_id namespace unsub_strings =
     send_and_cache (JSONRPCRequest new_id ''unsubscribe'' [namespace, unsub_strings])"

definition set_sampling_strategy ::
  "string \<Rightarrow> json \<Rightarrow> json \<Rightarrow> json \<Rightarrow> json \<Rightarrow> events \<Rightarrow> client \<Rightarrow>
   json outcome \<times> events \<times> client" where
  "set_sampling_strategy new_id namespace sensor_name strategy_and_params persist_to_redis =
     send_and_cache (JSONRPCRequest new_id ''set_sampling_strategy''
       [namespace, sensor_name, strategy_and_params, persist_to_redis])"

definition set_sampling_strategies ::
  "string \<Rightarrow> json \<Rightarrow> json \<Rightarrow> json \<Rightarrow> json \<Rightarrow> events \<Rightarrow> client \<Rightarrow>
   json outcome \<times> events \<times> client" where
  "set_sampling_strategies new_id namespace filters strategy_and_params persist_to_redis =
     send_and_cache (JSONRPCRequest new_id ''set_sampling_strategies''
       [namespace, filters, strategy_and_params, persist_to_redis])"

section \<open>The history synchroniser\<close>

text \<open>
  What the world outside gives one call of \<open>sensor_history\<close>: the namespace drawn by
  \<open>uuid.uuid4\<close>, whether \<open>websocket_connect\<close> succeeds if it is called, the ids of the
  two requests the call builds, and the reply of the one-shot fetch: it fails, or it has a
  body, which is \<open>None\<close> when \<open>json.loads\<close> rejects it.
\<close>

datatype http_reply = Fetch_failed | Body "json option"

record history_env =
  new_namespace :: string
  accepts :: bool
  subscribe_id :: string
  unsubscribe_id :: string
  reply :: http_reply

definition is_done :: "string \<Rightarrow> client \<Rightarrow> bool" where
  "is_done namespace c =
     (case sensor_history_states c namespace of None \<Rightarrow> False | Some state \<Rightarrow> done_event state)"

text \<open>
  \<open>yield state['done_event'].wait(timeout=timeout_delta)\<close>: the wait ends as soon as the
  event is set; events that arrive before the deadline are delivered; at the deadline
  the wait raises \<open>TimeoutError\<close>.
\<close>

fun wait_done :: "string \<Rightarrow> rat \<Rightarrow> events \<Rightarrow> client \<Rightarrow> unit outcome \<times> events \<times> client" where
  "wait_done namespace deadline [] c =
     (if is_done namespace c then (Returned (), [], c)
      else (Raised TimeoutError, [], advance deadline c))"
| "wait_done namespace deadline ((t, ev) # evs) c =
     (if is_done namespace c then (Returned (), (t, ev) # evs, c)
      else if t < deadline then
        (case deliver ev (advance t c) of
           None \<Rightarrow> (Not_modelled, evs, advance t c)
         | Some c' \<Rightarrow> wait_done namespace deadline evs c')
      else (Raised TimeoutError, (t, ev) # evs, advance deadline c))"

text \<open>The query string of the chunked-download request.\<close>

definition history_params :: "string \<Rightarrow> string \<Rightarrow> rat \<Rightarrow> rat \<Rightarrow> (string \<times> json) list" where
  "history_params sensor_name namespace start_time_sec end_time_sec =
     [(''sensor'', JStr sensor_name),
      (''time_type'', JStr ''ms''),
      (''start'', JNum (start_time_sec * SAMPLE_HISTORY_REQUEST_MULTIPLIER_TO_SEC)),
      (''end'', JNum (end_time_sec * SAMPLE_HISTORY_REQUEST_MULTIPLIER_TO_SEC)),
      (''namespace'', JStr namespace),
      (''request_in_chunks'', JNum 1),
      (''chunk_size'', JNum (of_nat SAMPLE_HISTORY_CHUNK_SIZE)),
      (''limit'', JNum (of_nat MAX_SAMPLES_PER_HISTORY_QUERY))]"

definition limit_warning :: log_entry where
  "limit_warning =
     (WARN, ''Maximum sample limit (%d) hit - there may be more data available.'', [])"

text \<open>
  The end of \<open>sensor_history\<close>, after the wait has returned: sort, warn, unsubscribe,
  delete the state, return.
\<close>

definition history_complete ::
  "history_env \<Rightarrow> events \<Rightarrow> client \<Rightarrow> sample list outcome \<times> events \<times> client" where
  "history_complete env evs c0 =
     (let namespace = new_namespace env;
          result = sort_key timestamp
            (case sensor_history_states c0 namespace of None \<Rightarrow> [] | Some state \<Rightarrow> samples state);
          c = (if length result \<ge> MAX_SAMPLES_PER_HISTORY_QUERY
               then c0\<lparr>logger := logger c0 @ [limit_warning]\<rparr> else c0)
      in case unsubscribe (unsubscribe_id env) (JStr namespace) (JList [JStr ''*'']) evs c of
           (Returned r, evs', c') \<Rightarrow>
             (Returned result, evs',
              c'\<lparr>sensor_history_states := (sensor_history_states c')(namespace := None)\<rparr>)
         | (Raised e, evs', c') \<Rightarrow> (Raised e, evs', c')
         | (Suspended, evs', c') \<Rightarrow> (Suspended, evs', c')
         | (Not_modelled, evs', c') \<Rightarrow> (Not_modelled, evs', c'))"

text \<open>
  The middle of \<open>sensor_history\<close>: the request for the chunked download and the wait for
  the marker. Only \<open>TimeoutError\<close> can come out of the wait.
\<close>

definition history_download ::
  "history_env \<Rightarrow> string \<Rightarrow> rat \<Rightarrow> rat \<Rightarrow> rat \<Rightarrow> events \<Rightarrow> client \<Rightarrow>
   sample list outcome \<times> events \<times> client" where
  "history_download env sensor_name start_time_sec end_time_sec timeout_sec evs c0 =
     (let namespace = new_namespace env;
          c = logging DEBUG ''Sensor history request: %s'' []
                (c0\<lparr>fetched := fetched c0 @
                   [history_params sensor_name namespace start_time_sec end_time_sec]\<rparr>);
          refused = (Raised (SensorHistoryRequestError ''Error requesting sensor history: {}''),
                     evs, c)
      in case reply env of
           Fetch_failed \<Rightarrow> (Raised HTTPError, evs, c)
         | Body None \<Rightarrow> (Raised JSONError, evs, c)
         | Body (Some (JDict d)) \<Rightarrow>
            (case map_of d ''result'' of
               None \<Rightarrow> (Raised KeyError, evs, c)
             | Some r \<Rightarrow>
                if r = JStr ''success'' then
                  (case wait_done namespace (now c + timeout_sec) evs c of
                     (Returned u, evs', c') \<Rightarrow>
                       history_complete env evs'
                         (logging DEBUG ''Done in %d seconds, fetched %s samples.'' [] c')
                   | (Raised e, evs', c') \<Rightarrow>
                       (Raised (SensorHistoryRequestError ''Sensor history request timed out''),
                        evs', c')
                   | (Suspended, evs', c') \<Rightarrow> (Suspended, evs', c')
                   | (Not_modelled, evs', c') \<Rightarrow> (Not_modelled, evs', c'))
                else refused)
         | Body (Some data) \<Rightarrow> refused)"

text \<open>\<open>sensor_history\<close>.\<close>

definition sensor_history ::
  "history_env \<Rightarrow> string \<Rightarrow> rat \<Rightarrow> rat \<Rightarrow> json \<Rightarrow> rat \<Rightarrow> events \<Rightarrow> client \<Rightarrow>
   sample list outcome \<times> events \<times> client" where
  "sensor_history env sensor_name start_time_sec end_time_sec include_value_ts_arg timeout_sec
     evs c0 =
     (let state = \<lparr>sensor = sensor_name, done_event = False, num_samples_pending = 0,
                   include_value_ts = include_value_ts_arg, samples = []\<rparr>;
          namespace = new_namespace env;
          c = c0\<lparr>sensor_history_states := (sensor_history_states c0)(namespace \<mapsto> state)\<rparr>
      in case connect (accepts env) evs c of
           (Returned u, evs1, c1) \<Rightarrow>
             (case subscribe (subscribe_id env) (JStr namespace) (JList [JStr ''*'']) evs1 c1 of
                (Returned r, evs2, c2) \<Rightarrow>
                  history_download env sensor_name start_time_sec end_time_sec timeout_sec
                    evs2 c2
              | (Raised e, evs2, c2) \<Rightarrow> (Raised e, evs2, c2)
              | (Suspended, evs2, c2) \<Rightarrow> (Suspended, evs2, c2)
              | (Not_modelled, evs2, c2) \<Rightarrow> (Not_modelled, evs2, c2))
         | (Raised e, evs1, c1) \<Rightarrow> (Raised e, evs1, c1)
         | (Suspended, evs1, c1) \<Rightarrow> (Suspended, evs1, c1)
         | (Not_modelled, evs1, c1) \<Rightarrow> (Not_modelled, evs1, c1))"

text \<open>
  The loop of \<open>sensors_histories\<close> over the sensor names, each with what the world gives
  its call of \<open>sensor_history\<close>. The call passes four positional arguments: the fourth
  parameter of \<open>sensor_history\<close> is \<open>include_value_ts\<close>, and \<open>timeout_sec\<close> takes its
  default, 300.
\<close>

fun histories_loop ::
  "(string \<times> history_env) list \<Rightarrow> rat \<Rightarrow> rat \<Rightarrow> rat \<Rightarrow> rat \<Rightarrow> (string \<rightharpoonup> sample list) \<Rightarrow>
   events \<Rightarrow> client \<Rightarrow> (string \<rightharpoonup> sample list) outcome \<times> events \<times> client" where
  "histories_loop [] request_start_sec start_time_sec end_time_sec timeout_sec histories evs c =
     (Returned histories, evs, c)"
| "histories_loop ((sensor_name, env) # rest) request_start_sec start_time_sec end_time_sec
     timeout_sec histories evs c =
     (let elapsed_time_sec = now c - request_start_sec;
          timeout_left_sec = timeout_sec - elapsed_time_sec
      in case sensor_history env sensor_name start_time_sec end_time_sec
                (JNum timeout_left_sec) 300 evs c of
           (Returned h, evs', c') \<Rightarrow>
             histories_loop rest request_start_sec start_time_sec end_time_sec timeout_sec
               (histories(sensor_name \<mapsto> h)) evs' c'
         | (Raised e, evs', c') \<Rightarrow> (Raised e, evs', c')
         | (Suspended, evs', c') \<Rightarrow> (Suspended, evs', c')
         | (Not_modelled, evs', c') \<Rightarrow> (Not_modelled, evs', c'))"

text \<open>
  \<open>sensors_histories\<close>. The first argument is what \<open>sensor_names(filters)\<close>, a one-shot
  fetch, resolves the filters to: an exception or the sensor names.
\<close>

definition sensors_histories ::
  "error + (string \<times> history_env) list \<Rightarrow> rat \<Rightarrow> rat \<Rightarrow> json \<Rightarrow> rat \<Rightarrow> events \<Rightarrow> client \<Rightarrow>
   (string \<rightharpoonup> sample list) outcome \<times> events \<times> client" where
  "sensors_histories sensors start_time_sec end_time_sec include_value_ts_arg timeout_sec evs c =
     (let request_start_sec = now c
      in case sensors of
           Inl e \<Rightarrow> (Raised e, evs, c)
         | Inr names \<Rightarrow>
             histories_loop names request_start_sec start_time_sec end_time_sec timeout_sec
               Map.empty evs c)"

section \<open>Stating the replay; a client with three ledger entries\<close>

text \<open>
  For the statements about replay: the events in which each request of a list is answered
  in turn, \<open>replies\<close> giving the time and the response object of each; the log lines such
  a replay writes; and the ids that \<open>_websocket_message\<close> takes for a JSON-RPC response
  (request ids are drawn by \<open>request.py\<close>).
\<close>

definition answers_of :: "request list \<Rightarrow> (rat \<times> (string \<times> json) list) list \<Rightarrow> events" where
  "answers_of reqs replies =
     map (\<lambda>(req, t, msg). (t, Inbound (Message (req_id req) msg))) (zip reqs replies)"

definition replay_log :: "request list \<Rightarrow> (rat \<times> (string \<times> json) list) list \<Rightarrow> log_entry list" where
  "replay_log reqs replies =
     concat (map (\<lambda>(req, t, msg).
        [(INFO, ''Resending JSONRPCRequest %s'', [Request req]),
         (INFO, ''Resent JSONRPCRequest, with result: %s'', [Value (reply_value msg)])])
       (zip reqs replies))"

definition plain_id :: "request \<Rightarrow> bool" where
  "plain_id req \<longleftrightarrow>
     \<not> startswith (req_id req) ''redis-pubsub'' \<and> \<not> startswith (req_id req) ''redis-reconnect''"

text \<open>
  A client that has connected, subscribed, set a sampling strategy and subscribed again, each
  call answered with a result.
\<close>

definition ok_reply :: "string \<Rightarrow> (string \<times> json) list" where
  "ok_reply i = [(''id'', JStr i), (''result'', JNum 1)]"

definition error_reply :: "string \<Rightarrow> (string \<times> json) list" where
  "error_reply i =
     [(''id'', JStr i),
      (''error'', JDict [(''code'', JNum (- 32000)), (''message'', JStr ''no such sensor'')])]"

definition connected_client :: client where
  "connected_client = snd (snd (connect True [] (init True)))"

definition subscribed_a :: client where
  "subscribed_a =
     snd (snd (subscribe ''a1'' (JStr ''ns'') (JStr ''m063_ap_mode'')
       [(1, Inbound (Message ''a1'' (ok_reply ''a1'')))] connected_client))"

definition subscribed_b :: client where
  "subscribed_b =
     snd (snd (set_sampling_strategy ''b2'' (JStr ''ns'') (JStr ''m063_ap_mode'')
       (JStr ''period 1'') (JBool False)
       [(2, Inbound (Message ''b2'' (ok_reply ''b2'')))] subscribed_a))"

definition subscribed :: client where
  "subscribed =
     snd (snd (subscribe ''c3'' (JStr ''alarms'') (JStr ''*'')
       [(3, Inbound (Message ''c3'' (ok_reply ''c3'')))] subscribed_b))"

definition req_a :: request where
  "req_a = JSONRPCRequest ''a1'' ''subscribe'' [JStr ''ns'', JStr ''m063_ap_mode'']"

definition req_b :: request where
  "req_b = JSONRPCRequest ''b2'' ''set_sampling_strategy''
             [JStr ''ns'', JStr ''m063_ap_mode'', JStr ''period 1'', JBool False]"

definition req_c :: request where
  "req_c = JSONRPCRequest ''c3'' ''subscribe'' [JStr ''alarms'', JStr ''*'']"

text \<open>
  A history query: the namespace and request ids of one call of \<open>sensor_history\<close> whose
  download request the portal accepts; a row of six fields as the portal publishes it; a
  publication on a channel; the inform message that carries the \<open>done\<close> marker; the events
  of a query whose subscribe is answered and for which one row arrives but no marker;
  the events of a query that completes, the rows being published at time \<open>t\<close>; and a client
  that holds the state of a finished download, the later sample first.
\<close>

definition history_env1 :: history_env where
  "history_env1 =
     \<lparr>new_namespace = ''hist'', accepts = True, subscribe_id = ''h1'', unsubscribe_id = ''h2'',
      reply = Body (Some (JDict [(''result'', JStr ''success'')]))\<rparr>"

definition sample_row :: json where
  "sample_row =
     JList [JNum 2000, JNum 1000, JNum 2000000, JStr ''5.07'', JStr ''anc_mean_wind_speed'',
            JStr ''nominal'']"

definition publication :: "string \<Rightarrow> json \<Rightarrow> frame" where
  "publication channel msg_data =
     Message ''redis-pubsub''
       [(''id'', JStr ''redis-pubsub''),
        (''result'', JDict [(''msg_channel'', JStr channel), (''msg_data'', msg_data)])]"

definition done_marker :: json where
  "done_marker =
     JDict [(''inform_type'', JStr ''sample_history''),
            (''inform_data'',
             JDict [(''num_samples_to_be_published'', JNum 0), (''done'', JBool True)])]"

definition no_marker_events :: events where
  "no_marker_events =
     [(1, Inbound (Message ''h1'' (ok_reply ''h1''))),
      (2, Inbound (publication ''hist:anc_mean_wind_speed'' (JList [sample_row])))]"

definition history_events :: "rat \<Rightarrow> json list \<Rightarrow> events" where
  "history_events t rows =
     [(1, Inbound (Message ''h1'' (ok_reply ''h1''))),
      (t, Inbound (publication ''hist:anc_mean_wind_speed'' (JList rows))),
      (t + 1, Inbound (publication ''hist:anc_mean_wind_speed'' done_marker)),
      (t + 2, Inbound (Message ''h2'' (ok_reply ''h2'')))]"

definition downloaded :: client where
  "downloaded =
     (init True)
       \<lparr>ws := Some 1,
        sensor_history_states :=
          [''hist'' \<mapsto>
             \<lparr>sensor = ''anc_mean_wind_speed'', done_event = True, num_samples_pending = 0,
              include_value_ts = JBool False,
              samples = [SensorSample 3 (JStr ''5.09'') (JStr ''nominal''),
                         SensorSample 2 (JStr ''5.07'') (JStr ''nominal'')]\<rparr>]\<rparr>"


section \<open>Properties of the subscription ledger\<close>

lemma remove_requests_filter:
  "\<forall>y\<in>set ys. \<not> P y \<Longrightarrow>
   remove_requests (filter P xs) (ys @ xs) = Inr (ys @ filter (\<lambda>x. \<not> P x) xs)"
proof (induction xs arbitrary: ys)
  case Nil
  then show ?case by simp
next
  case (Cons x xs)
  show ?case
  proof (cases "P x")
    case True
    with Cons.prems have "x \<notin> set ys" by auto
    then have "remove1 x (ys @ x # xs) = ys @ xs"
      by (simp add: remove1_append)
    with True Cons.IH [OF Cons.prems] show ?thesis
      by (simp add: list_remove_def)
  next
    case False
    with Cons.prems have "\<forall>y\<in>set (ys @ [x]). \<not> P y" by auto
    from Cons.IH [OF this] False show ?thesis by simp
  qed
qed

lemma remove_requests_filter_all:
  "remove_requests (filter P xs) xs = Inr (filter (\<lambda>x. \<not> P x) xs)"
  using remove_requests_filter [of "[]" P xs] by simp


lemma strategy_matches_filter:
  "strategy_matches new cache = Inr ms \<Longrightarrow> ms = filter (same_sensor new) cache"
proof (induction cache arbitrary: ms)
  case Nil
  then show ?case by simp
next
  case (Cons r rs)
  show ?case
  proof (cases "strategy_matches new rs")
    case (Inl e)
    with Cons.prems show ?thesis
      by (auto split: if_splits sum.splits)
  next
    case (Inr ms')
    from Cons.prems Inr have "ms = (if same_sensor new r then r # ms' else ms')"
      by (auto simp: same_sensor_def split: if_splits sum.splits)
    with Cons.IH [OF Inr] show ?thesis by simp
  qed
qed

lemma duplicate_found_iff:
  "duplicate_found new cache \<longleftrightarrow>
   method_and_params_hash new \<in> set (map method_and_params_hash cache)"
  by (induction cache) auto

lemma cache_jsonrpc_request_cases:
  assumes "cache_jsonrpc_request r cache = Inr cache'"
  shows "(\<exists>P. cache' = filter P cache) \<or> cache' = cache \<or>
         (cache' = cache @ [r] \<and> \<not> duplicate_found r cache \<and> method' r \<noteq> ''unsubscribe'')"
proof (cases "method' r = ''unsubscribe''")
  case True
  with assms show ?thesis
    by (auto simp: cache_jsonrpc_request_def remove_requests_filter_all)
next
  case False
  show ?thesis
  proof (cases "startswith (method' r) ''set_sampling_strat'' \<and> index (params r) 2 = Inr (JStr ''none'')")
    case True
    with assms False obtain ms where ms: "strategy_matches r cache = Inr ms"
      and rem: "remove_requests ms cache = Inr cache'"
      by (auto simp: cache_jsonrpc_request_def split: sum.splits)
    from strategy_matches_filter [OF ms] rem show ?thesis
      by (auto simp: remove_requests_filter_all)
  next
    case no_clear: False
    with assms False show ?thesis
      by (auto simp: cache_jsonrpc_request_def split: sum.splits if_splits)
  qed
qed

lemma cache_jsonrpc_request_distinct:
  assumes "cache_jsonrpc_request r cache = Inr cache'"
    and "distinct (map method_and_params_hash cache)"
  shows "distinct (map method_and_params_hash cache')"
  using cache_jsonrpc_request_cases [OF assms(1)] assms(2)
  by (auto simp: distinct_map_filter duplicate_found_iff)

lemma cache_jsonrpc_request_no_unsubscribe:
  assumes "cache_jsonrpc_request r cache = Inr cache'"
    and "\<forall>x\<in>set cache. method' x \<noteq> ''unsubscribe''"
  shows "\<forall>x\<in>set cache'. method' x \<noteq> ''unsubscribe''"
  using cache_jsonrpc_request_cases [OF assms(1)] assms(2)
  by auto

lemma reachable_cache_distinct:
  "reachable_cache cache \<Longrightarrow> distinct (map method_and_params_hash cache)"
  by (induction rule: reachable_cache.induct)
     (auto intro: cache_jsonrpc_request_distinct)

lemma reachable_cache_no_unsubscribe:
  "reachable_cache cache \<Longrightarrow> \<forall>x\<in>set cache. method' x \<noteq> ''unsubscribe''"
proof (induction rule: reachable_cache.induct)
  case empty_cache
  show ?case by simp
next
  case (recorded cache r cache')
  from cache_jsonrpc_request_no_unsubscribe [OF recorded.hyps(2) recorded.IH]
  show ?case .
qed


lemma other_call_result:
  "other_call r \<Longrightarrow>
   cache_jsonrpc_request r cache =
     Inr (if duplicate_found r cache then cache else cache @ [r])"
  by (auto simp: other_call_def cache_jsonrpc_request_def split: sum.splits)

lemma one_entry_of_distinct:
  "distinct (map f xs) \<Longrightarrow> y \<in> set (map f xs) \<Longrightarrow> length (filter (\<lambda>x. f x = y) xs) = 1"
proof (induction xs)
  case Nil
  then show ?case by simp
next
  case (Cons x xs)
  show ?case
  proof (cases "f x = y")
    case True
    from Cons.prems(1) True have "\<forall>z\<in>set xs. f z \<noteq> y"
      by (auto simp: image_iff)
    then have "filter (\<lambda>x. f x = y) xs = []"
      by (simp add: filter_empty_conv)
    with True show ?thesis by simp
  next
    case False
    with Cons show ?thesis by auto
  qed
qed

text \<open>
  Claim C5. In every reachable state of the Subscription Ledger at most one entry with a
  given \<open>(method, params)\<close> identity exists; and recording a request that the ledger
  keeps (one that falls under the third rule) twice, under the same method' and params,
  leaves exactly one entry of that identity.
\<close>

theorem ledger_one_entry_per_identity:
  "reachable_cache cache \<Longrightarrow>
     distinct (map method_and_params_hash cache) \<and>
     (\<forall>r r'. other_call r \<and> method_and_params_hash r' = method_and_params_hash r \<longrightarrow>
        (\<exists>c1 c2. cache_jsonrpc_request r cache = Inr c1 \<and>
                 cache_jsonrpc_request r' c1 = Inr c2 \<and>
                 length (filter (\<lambda>x. method_and_params_hash x = method_and_params_hash r) c2) = 1))"
proof (intro conjI allI impI)
  assume reach: "reachable_cache cache"
  then show dist: "distinct (map method_and_params_hash cache)"
    by (rule reachable_cache_distinct)
  fix r r'
  assume h: "other_call r \<and> method_and_params_hash r' = method_and_params_hash r"
  define c1 where "c1 = (if duplicate_found r cache then cache else cache @ [r])"
  have r1: "cache_jsonrpc_request r cache = Inr c1"
    using h by (simp add: other_call_result c1_def)
  have mem: "method_and_params_hash r \<in> set (map method_and_params_hash c1)"
    by (auto simp: c1_def duplicate_found_iff)
  have "other_call r'"
    using h by (simp add: other_call_def method_and_params_hash_def)
  then have r2: "cache_jsonrpc_request r' c1 = Inr c1"
    using h mem by (simp add: other_call_result duplicate_found_iff)
  have "distinct (map method_and_params_hash c1)"
    using dist by (auto simp: c1_def duplicate_found_iff)
  from one_entry_of_distinct [OF this mem] r1 r2
  show "\<exists>c1 c2. cache_jsonrpc_request r cache = Inr c1 \<and>
                 cache_jsonrpc_request r' c1 = Inr c2 \<and>
                 length (filter (\<lambda>x. method_and_params_hash x = method_and_params_hash r) c2) = 1"
    by blast
qed

theorem ledger_one_entry_per_identity_witness:
  "reachable_cache [JSONRPCRequest ''a1'' ''subscribe'' [JStr ''ns'', JStr ''x'']] \<and>
   other_call (JSONRPCRequest ''b2'' ''set_sampling_strategy''
                 [JStr ''ns'', JStr ''s'', JStr ''period 1'', JBool False]) \<and>
   distinct (map method_and_params_hash
      [JSONRPCRequest ''a1'' ''subscribe'' [JStr ''ns'', JStr ''x'']]) \<and>
   (\<exists>c1 c2.
      cache_jsonrpc_request
        (JSONRPCRequest ''b2'' ''set_sampling_strategy''
           [JStr ''ns'', JStr ''s'', JStr ''period 1'', JBool False])
        [JSONRPCRequest ''a1'' ''subscribe'' [JStr ''ns'', JStr ''x'']] = Inr c1 \<and>
      cache_jsonrpc_request
        (JSONRPCRequest ''c3'' ''set_sampling_strategy''
           [JStr ''ns'', JStr ''s'', JStr ''period 1'', JBool False]) c1 = Inr c2 \<and>
      length (filter (\<lambda>x. method_and_params_hash x =
                method_and_params_hash (JSONRPCRequest ''b2'' ''set_sampling_strategy''
                   [JStr ''ns'', JStr ''s'', JStr ''period 1'', JBool False])) c2) = 1)"
proof -
  let ?a = "JSONRPCRequest ''a1'' ''subscribe'' [JStr ''ns'', JStr ''x'']"
  let ?b = "JSONRPCRequest ''b2'' ''set_sampling_strategy''
              [JStr ''ns'', JStr ''s'', JStr ''period 1'', JBool False]"
  let ?c = "JSONRPCRequest ''c3'' ''set_sampling_strategy''
              [JStr ''ns'', JStr ''s'', JStr ''period 1'', JBool False]"
  have "cache_jsonrpc_request ?a [] = Inr [?a]"
    by (simp add: cache_jsonrpc_request_def JSONRPCRequest_def startswith_def)
  with empty_cache have reach: "reachable_cache [?a]"
    by (rule recorded)
  have oc: "other_call ?b"
    by (simp add: other_call_def JSONRPCRequest_def startswith_def index_def)
  have same: "method_and_params_hash ?c = method_and_params_hash ?b"
    by (simp add: method_and_params_hash_def JSONRPCRequest_def)
  from ledger_one_entry_per_identity [OF reach] oc same reach show ?thesis
    by blast
qed

lemma subscribe_is_other_call: "method' s = ''subscribe'' \<Longrightarrow> other_call s"
  by (simp add: other_call_def startswith_def)

lemma unsubscribe_result:
  "method' u = ''unsubscribe'' \<Longrightarrow>
   cache_jsonrpc_request u cache =
     Inr (filter (\<lambda>r. \<not> (method' r = ''subscribe'' \<and> params r = params u)) cache)"
  by (simp add: cache_jsonrpc_request_def remove_requests_filter_all)

text \<open>
  Claim C6. From any reachable ledger, recording a subscribe request with params \<open>p\<close> and
  then an unsubscribe request with the same params succeeds twice and leaves the ledger as it
  was, less every subscribe with params \<open>p\<close>: the result holds no subscribe with these
  params and no unsubscribe at all.
\<close>

theorem unsubscribe_cancels_subscribe:
  "reachable_cache cache \<Longrightarrow> method' s = ''subscribe'' \<Longrightarrow> method' u = ''unsubscribe'' \<Longrightarrow>
   params u = params s \<Longrightarrow>
   \<exists>c1 c2. cache_jsonrpc_request s cache = Inr c1 \<and>
           cache_jsonrpc_request u c1 = Inr c2 \<and>
           c2 = filter (\<lambda>r. \<not> (method' r = ''subscribe'' \<and> params r = params s)) cache \<and>
           (\<forall>r\<in>set c2. method' r \<noteq> ''unsubscribe'' \<and>
                        \<not> (method' r = ''subscribe'' \<and> params r = params s))"
proof -
  assume reach: "reachable_cache cache" and ms: "method' s = ''subscribe''"
    and mu: "method' u = ''unsubscribe''" and ps: "params u = params s"
  define c1 where "c1 = (if duplicate_found s cache then cache else cache @ [s])"
  define keep :: "request \<Rightarrow> bool" where "keep = (\<lambda>r. \<not> (method' r = ''subscribe'' \<and> params r = params s))"
  have r1: "cache_jsonrpc_request s cache = Inr c1"
    using subscribe_is_other_call [OF ms] by (simp add: other_call_result c1_def)
  have r2: "cache_jsonrpc_request u c1 = Inr (filter keep c1)"
    using unsubscribe_result [OF mu, of c1] ps by (simp add: keep_def)
  have "\<not> keep s"
    using ms by (simp add: keep_def)
  then have eq: "filter keep c1 = filter keep cache"
    by (simp add: c1_def)
  have clean: "\<forall>r\<in>set (filter keep cache). method' r \<noteq> ''unsubscribe'' \<and> keep r"
    using reachable_cache_no_unsubscribe [OF reach] by simp
  show ?thesis
  proof (intro exI conjI)
    show "cache_jsonrpc_request s cache = Inr c1" by (rule r1)
    show "cache_jsonrpc_request u c1 = Inr (filter keep cache)"
      using r2 eq by simp
    show "filter keep cache =
          filter (\<lambda>r. \<not> (method' r = ''subscribe'' \<and> params r = params s)) cache"
      by (simp add: keep_def)
    show "\<forall>r\<in>set (filter keep cache). method' r \<noteq> ''unsubscribe'' \<and>
            \<not> (method' r = ''subscribe'' \<and> params r = params s)"
      using clean by (simp add: keep_def)
  qed
qed

theorem unsubscribe_cancels_subscribe_witness:
  "reachable_cache [] \<and>
   cache_jsonrpc_request (JSONRPCRequest ''u2'' ''unsubscribe'' [JStr ''ns'', JStr ''x''])
     [JSONRPCRequest ''s1'' ''subscribe'' [JStr ''ns'', JStr ''x'']] = Inr [] \<and>
   cache_jsonrpc_request (JSONRPCRequest ''s1'' ''subscribe'' [JStr ''ns'', JStr ''x'']) []
     = Inr [JSONRPCRequest ''s1'' ''subscribe'' [JStr ''ns'', JStr ''x'']]"
proof -
  let ?s = "JSONRPCRequest ''s1'' ''subscribe'' [JStr ''ns'', JStr ''x'']"
  let ?u = "JSONRPCRequest ''u2'' ''unsubscribe'' [JStr ''ns'', JStr ''x'']"
  have m: "method' ?s = ''subscribe''" "method' ?u = ''unsubscribe''" "params ?u = params ?s"
    by (simp_all add: JSONRPCRequest_def)
  have first: "cache_jsonrpc_request ?s [] = Inr [?s]"
    by (simp add: cache_jsonrpc_request_def JSONRPCRequest_def startswith_def)
  from unsubscribe_cancels_subscribe [OF empty_cache m] first empty_cache
  show ?thesis by simp
qed

section \<open>The correlator\<close>

lemma await_future_resolved:
  "future_state c f = Done v \<Longrightarrow> await_future f evs c = (Returned v, evs, c)"
  "future_state c f = Failed e \<Longrightarrow> await_future f evs c = (Raised e, evs, c)"
  by (cases evs; auto)+

lemma send_disconnected:
  "ws c = None \<Longrightarrow>
   send req c =
     (length (futures c),
      c\<lparr>futures := futures c @ [Failed (PyException not_connected_msg)],
        logger := logger c @ [(ERROR, not_connected_msg, [])]\<rparr>)"
  by (simp add: send_def set_exception_def logging_def Let_def)

lemma send_connected:
  "ws c = Some conn \<Longrightarrow>
   send req c =
     (length (futures c),
      c\<lparr>futures := futures c @ [Pending],
        pending_requests := (pending_requests c)(req_id req \<mapsto> length (futures c)),
        written := written c @ [(conn, req)]\<rparr>)"
  by (simp add: send_def Let_def)

text \<open>
  Claim C7. A request sent while the client is not connected fails at once: the future that
  \<open>_send\<close> returns is already resolved with the "not connected" exception, so awaiting it
  raises without waiting for any event; nothing is written to the channel and the map of
  pending requests is unchanged.
\<close>

theorem send_while_disconnected:
  "\<not> is_connected c \<Longrightarrow>
   (case send req c of
      (future, c') \<Rightarrow>
        future_state c' future = Failed (PyException not_connected_msg) \<and>
        await_future future evs c' = (Raised (PyException not_connected_msg), evs, c') \<and>
        written c' = written c \<and>
        pending_requests c' = pending_requests c)"
proof -
  assume "\<not> is_connected c"
  then have off: "ws c = None"
    by (simp add: is_connected_def)
  let ?c' = "snd (send req c)"
  have st: "future_state ?c' (length (futures c)) = Failed (PyException not_connected_msg)"
    by (simp add: send_disconnected [OF off] future_state_def)
  from await_future_resolved(2) [OF st] st show ?thesis
    by (simp add: send_disconnected [OF off])
qed

theorem send_while_disconnected_witness:
  "\<not> is_connected (init True) \<and>
   fst (await_future
          (fst (send (JSONRPCRequest ''id1'' ''add'' [JNum 1, JNum 2]) (init True)))
          [(1, Inbound (Message ''id1'' [(''id'', JStr ''id1''), (''result'', JNum 3)]))]
          (snd (send (JSONRPCRequest ''id1'' ''add'' [JNum 1, JNum 2]) (init True))))
     = Raised (PyException not_connected_msg) \<and>
   written (snd (send (JSONRPCRequest ''id1'' ''add'' [JNum 1, JNum 2]) (init True))) = [] \<and>
   pending_requests (snd (send (JSONRPCRequest ''id1'' ''add'' [JNum 1, JNum 2]) (init True)))
     ''id1'' = None"
proof -
  have off: "\<not> is_connected (init True)"
    by (simp add: is_connected_def init_def)
  have start: "written (init True) = []" "pending_requests (init True) ''id1'' = None"
    by (simp_all add: init_def)
  from send_while_disconnected [OF off,
      where req = "JSONRPCRequest ''id1'' ''add'' [JNum 1, JNum 2]"
        and evs = "[(1, Inbound (Message ''id1'' [(''id'', JStr ''id1''), (''result'', JNum 3)]))]"]
    off start
  show ?thesis
    by (simp add: case_prod_unfold)
qed

lemma process_json_rpc_message_pending:
  "pending_requests (process_json_rpc_message msg msg_id c) = pending_requests c"
  by (simp add: process_json_rpc_message_def set_result_def logging_def Let_def
           split: option.splits)

lemma disconnect_pending:
  "pending_requests (disconnect c) = pending_requests c"
  by (simp add: disconnect_def logging_def Let_def split: option.splits)

lemma process_json_rpc_message_resolves:
  "pending_requests c msg_id = Some f \<Longrightarrow> f < length (futures c) \<Longrightarrow>
   future_state (process_json_rpc_message msg msg_id c) f = Done (reply_value msg)"
  by (simp add: process_json_rpc_message_def set_result_def future_state_def reply_value_def
        Let_def)

lemma send_connected_entry:
  assumes "is_connected c"
  shows "pending_requests (snd (send req c)) = (pending_requests c)(req_id req \<mapsto> fst (send req c))"
    and "future_state (snd (send req c)) (fst (send req c)) = Pending"
    and "fst (send req c) < length (futures (snd (send req c)))"
proof -
  from assms obtain conn where on: "ws c = Some conn"
    by (auto simp: is_connected_def)
  show "pending_requests (snd (send req c)) = (pending_requests c)(req_id req \<mapsto> fst (send req c))"
    and "future_state (snd (send req c)) (fst (send req c)) = Pending"
    and "fst (send req c) < length (futures (snd (send req c)))"
    by (simp_all add: send_connected [OF on] future_state_def)
qed

lemma send_connected_reply:
  assumes "is_connected c"
  shows "future_state (process_json_rpc_message msg (req_id req) (snd (send req c)))
           (fst (send req c)) = Done (reply_value msg)"
proof -
  have "pending_requests (snd (send req c)) (req_id req) = Some (fst (send req c))"
    by (simp add: send_connected_entry(1) [OF assms])
  from process_json_rpc_message_resolves [OF this send_connected_entry(3) [OF assms]]
  show ?thesis .
qed

section \<open>Error replies\<close>

lemma send_then_reply:
  assumes sent: "send req c = (f, c1)"
    and on: "ws c = Some conn"
    and id1: "\<not> startswith (req_id req) ''redis-pubsub''"
    and id2: "\<not> startswith (req_id req) ''redis-reconnect''"
  shows "await_future f ((t, Inbound (Message (req_id req) msg)) # evs) c1 =
         (Returned (reply_value msg), evs,
          process_json_rpc_message msg (req_id req) (advance t c1))"
proof -
  let ?c2 = "process_json_rpc_message msg (req_id req) (advance t c1)"
  from sent send_connected [OF on, of req]
  have f: "f = length (futures c)"
    and c1: "c1 = c\<lparr>futures := futures c @ [Pending],
        pending_requests := (pending_requests c)(req_id req \<mapsto> length (futures c)),
        written := written c @ [(conn, req)]\<rparr>"
    by auto
  have pend: "future_state c1 f = Pending"
    by (simp add: f c1 future_state_def)
  have "pending_requests (advance t c1) (req_id req) = Some f"
    and "f < length (futures (advance t c1))"
    by (simp_all add: f c1 advance_def)
  then have "future_state ?c2 f = Done (reply_value msg)"
    by (rule process_json_rpc_message_resolves)
  then have after: "await_future f evs ?c2 = (Returned (reply_value msg), evs, ?c2)"
    by (rule await_future_resolved(1))
  have "await_future f ((t, Inbound (Message (req_id req) msg)) # evs) c1 =
        await_future f evs ?c2"
    using pend id1 id2 by simp
  with after show ?thesis by simp
qed

lemma send_cache:
  "ws_jsonrpc_cache (snd (send req c)) = ws_jsonrpc_cache c"
  by (simp add: send_def set_exception_def logging_def Let_def split: option.splits)

lemma reply_changes:
  "ws_jsonrpc_cache (process_json_rpc_message msg msg_id (advance t c)) = ws_jsonrpc_cache c"
  "ws (process_json_rpc_message msg msg_id (advance t c)) = ws c"
  "written (process_json_rpc_message msg msg_id (advance t c)) = written c"
  by (simp_all add: process_json_rpc_message_def set_result_def logging_def advance_def Let_def
        split: option.splits)


section \<open>What the delivery of an event leaves alone\<close>

lemma count_list_snoc:
  "count_list (xs @ [x]) y = count_list xs y + (if x = y then 1 else 0)"
  by (induction xs) auto

lemma logging_frame:
  "connect_attempts (logging lvl txt args c) = connect_attempts c"
  "txt \<noteq> ''Maximum sample limit (%d) hit - there may be more data available.'' \<Longrightarrow>
   count_list (logger (logging lvl txt args c)) limit_warning
     = count_list (logger c) limit_warning"
  by (simp_all add: logging_def limit_warning_def count_list_snoc)

lemma hand_to_callback_frame:
  "connect_attempts (hand_to_callback m c) = connect_attempts c"
  "count_list (logger (hand_to_callback m c)) limit_warning
     = count_list (logger c) limit_warning"
  by (simp_all add: hand_to_callback_def logging_frame)

lemma processing_failed_frame:
  "connect_attempts (processing_failed m c) = connect_attempts c"
  "count_list (logger (processing_failed m c)) limit_warning
     = count_list (logger c) limit_warning"
  by (simp_all add: processing_failed_def hand_to_callback_frame logging_frame)

lemma receive_history_frame:
  "connect_attempts (snd (receive_history msg_result msg_data namespace state c))
     = connect_attempts c"
  "count_list (logger (snd (receive_history msg_result msg_data namespace state c)))
     limit_warning = count_list (logger c) limit_warning"
  by (simp_all add: receive_history_def logging_frame
        split: json.splits prod.splits option.splits)

lemma process_redis_message_frame:
  "connect_attempts (snd (process_redis_message msg msg_id c)) = connect_attempts c"
  "count_list (logger (snd (process_redis_message msg msg_id c))) limit_warning
     = count_list (logger c) limit_warning"
  by (simp_all add: process_redis_message_def hand_to_callback_frame receive_history_frame
        Let_def split: sum.splits json.splits option.splits bool.splits)

lemma process_json_rpc_message_frame:
  "connect_attempts (process_json_rpc_message msg msg_id c) = connect_attempts c"
  "count_list (logger (process_json_rpc_message msg msg_id c)) limit_warning
     = count_list (logger c) limit_warning"
  by (simp_all add: process_json_rpc_message_def set_result_def logging_frame Let_def
        split: option.splits)

lemma disconnect_frame:
  "connect_attempts (disconnect c) = connect_attempts c"
  "count_list (logger (disconnect c)) limit_warning = count_list (logger c) limit_warning"
  by (simp_all add: disconnect_def logging_frame Let_def split: option.splits)

lemma websocket_message_now_frame:
  assumes "websocket_message_now fr c = Some c'"
  shows "connect_attempts c' = connect_attempts c \<and>
         count_list (logger c') limit_warning = count_list (logger c) limit_warning"
proof (cases fr)
  case Closed
  with assms show ?thesis
    by (auto simp: logging_frame Let_def split: if_splits)
next
  case (Malformed m)
  with assms show ?thesis
    by (auto simp: processing_failed_frame)
next
  case (Message msg_id msg)
  with assms show ?thesis
    by (auto simp: process_redis_message_frame process_json_rpc_message_frame
          split: if_splits)
qed

lemma deliver_frame:
  assumes "deliver ev c = Some c'"
  shows "connect_attempts c' = connect_attempts c"
    and "count_list (logger c') limit_warning = count_list (logger c) limit_warning"
proof -
  have "connect_attempts c' = connect_attempts c \<and>
        count_list (logger c') limit_warning = count_list (logger c) limit_warning"
  proof (cases ev)
    case Disconnect_called
    with assms show ?thesis
      by (auto simp: disconnect_frame)
  next
    case (Inbound fr)
    with assms websocket_message_now_frame [of fr c c'] show ?thesis
      by simp
  qed
  then show "connect_attempts c' = connect_attempts c"
    and "count_list (logger c') limit_warning = count_list (logger c) limit_warning"
    by simp_all
qed

lemma await_future_frame:
  "await_future f evs c = (out, evs', c') \<Longrightarrow>
   connect_attempts c' = connect_attempts c \<and>
   count_list (logger c') limit_warning = count_list (logger c) limit_warning"
proof (induction f evs c rule: await_future.induct)
  case (1 f c)
  then show ?case
    by (auto split: future.splits)
next
  case (2 f t ev evs c)
  show ?case
  proof (cases "future_state c f")
    case Pending
    show ?thesis
    proof (cases "deliver ev (advance t c)")
      case None
      with Pending "2.prems" show ?thesis
        by (auto simp: advance_def)
    next
      case (Some c1)
      from deliver_frame [OF Some]
      have "connect_attempts c1 = connect_attempts c"
        and "count_list (logger c1) limit_warning = count_list (logger c) limit_warning"
        by (simp_all add: advance_def)
      moreover from Pending Some "2.prems" have "await_future f evs c1 = (out, evs', c')"
        by simp
      from "2.IH" [OF Pending Some this]
      have "connect_attempts c' = connect_attempts c1 \<and>
            count_list (logger c') limit_warning = count_list (logger c1) limit_warning" .
      ultimately show ?thesis by simp
    qed
  next
    case (Done v)
    with "2.prems" show ?thesis by auto
  next
    case (Failed e)
    with "2.prems" show ?thesis by auto
  qed
qed

lemma send_frame:
  "connect_attempts (snd (send req c)) = connect_attempts c"
  "count_list (logger (snd (send req c))) limit_warning = count_list (logger c) limit_warning"
  by (simp_all add: send_def set_exception_def logging_frame not_connected_msg_def Let_def
        split: option.splits)

lemma resend_attempts:
  "resend reqs evs c = (out, evs', c') \<Longrightarrow> connect_attempts c' = connect_attempts c"
proof (induction reqs arbitrary: evs c)
  case Nil
  then show ?case by simp
next
  case (Cons req reqs)
  let ?c0 = "logging INFO ''Resending JSONRPCRequest %s'' [Request req] c"
  obtain f c1 where sent: "send req ?c0 = (f, c1)"
    by (cases "send req ?c0")
  obtain o2 later c2 where waited: "await_future f evs c1 = (o2, later, c2)"
    by (cases "await_future f evs c1")
  from send_frame(1) [of req ?c0] sent have a1: "connect_attempts c1 = connect_attempts c"
    by (simp add: logging_def)
  from await_future_frame [OF waited] a1 have a2: "connect_attempts c2 = connect_attempts c"
    by simp
  show ?case
  proof (cases o2)
    case (Returned result)
    with Cons.prems sent waited
    have "resend reqs later
            (logging INFO ''Resent JSONRPCRequest, with result: %s'' [Value result] c2)
          = (out, evs', c')"
      by simp
    from Cons.IH [OF this] a2 show ?thesis
      by (simp add: logging_def)
  next
    case (Raised e)
    with Cons.prems sent waited a2 show ?thesis by simp
  next
    case Suspended
    with Cons.prems sent waited a2 show ?thesis by simp
  next
    case Not_modelled
    with Cons.prems sent waited a2 show ?thesis by simp
  qed
qed


section \<open>Connecting\<close>

lemma stop_timer:
  "(if heart_beat_timer c then c\<lparr>heart_beat_timer := False\<rparr> else c)
     = c\<lparr>heart_beat_timer := False\<rparr>"
  by (cases c) simp

lemma connect_done_frame:
  "connect_attempts (connect_done r c) = connect_attempts c"
  "disconnect_issued (connect_done r c) = disconnect_issued c"
  "ws (connect_done r c) = ws c"
  "retries_scheduled (connect_done r c) = retries_scheduled c"
  by (simp_all add: connect_done_def logging_def)

lemma connect_failed_frame:
  "connect_attempts (connect_failed r e c) = connect_attempts c"
  "disconnect_issued (connect_failed r e c) = disconnect_issued c"
  "ws (connect_failed r e c) = ws c"
  "retries_scheduled (connect_failed r e c) = retries_scheduled c + (if r then 1 else 0)"
  by (simp_all add: connect_failed_def logging_def Let_def)

lemma connect'_refused:
  "\<not> ws_connecting_lock c \<Longrightarrow> \<not> is_connected c \<Longrightarrow>
   connect' r False evs c =
     (Returned (), evs,
      connect_done r (connect_failed r WebSocketError
        ((logging DEBUG ''Connecting to websocket %s'' []
            (c\<lparr>ws_connecting_lock := True, disconnect_issued := False\<rparr>))
         \<lparr>heart_beat_timer := False, connect_attempts := connect_attempts c + 1\<rparr>)))"
  by (simp add: connect'_def is_connected_def logging_def stop_timer Let_def)

lemma after_connect_attempts:
  assumes "after_connect r evs c = (out, evs', c')"
  shows "connect_attempts c' = connect_attempts c"
proof (cases r)
  case False
  with assms show ?thesis
    by (auto simp: after_connect_def connect_done_frame)
next
  case True
  obtain o1 evs1 c1 where replay: "resend (ws_jsonrpc_cache c) evs c = (o1, evs1, c1)"
    by (cases "resend (ws_jsonrpc_cache c) evs c")
  from resend_attempts [OF replay] have "connect_attempts c1 = connect_attempts c" .
  with assms True replay show ?thesis
    by (cases o1)
       (auto simp: after_connect_def resend_subscriptions_and_strategies_def
          connect_done_frame connect_failed_frame logging_def)
qed

lemma connect'_accepted:
  "\<not> ws_connecting_lock c \<Longrightarrow> \<not> is_connected c \<Longrightarrow>
   connect' r True evs c =
     after_connect r evs
       ((logging DEBUG ''Connecting to websocket %s'' []
           (c\<lparr>ws_connecting_lock := True, disconnect_issued := False\<rparr>))
        \<lparr>heart_beat_timer := False, connect_attempts := connect_attempts c + 1,
          ws := Some (connect_attempts c + 1)\<rparr>)"
  by (simp add: connect'_def is_connected_def logging_def stop_timer Let_def)

lemma connect'_attempts:
  assumes "\<not> ws_connecting_lock c" and "\<not> is_connected c"
    and "connect' r a evs c = (out, evs', c')"
  shows "connect_attempts c' = connect_attempts c + 1"
proof (cases a)
  case False
  with assms show ?thesis
    by (auto simp: connect'_refused connect_done_frame connect_failed_frame logging_def)
next
  case True
  with assms(3) have "after_connect r evs
       ((logging DEBUG ''Connecting to websocket %s'' []
           (c\<lparr>ws_connecting_lock := True, disconnect_issued := False\<rparr>))
        \<lparr>heart_beat_timer := False, connect_attempts := connect_attempts c + 1,
          ws := Some (connect_attempts c + 1)\<rparr>) = (out, evs', c')"
    by (simp add: connect'_accepted [OF assms(1,2)])
  from after_connect_attempts [OF this] show ?thesis
    by (simp add: logging_def)
qed

text \<open>
  Claim C10. A call of \<open>connect()\<close> that gets the connection lock returns with the
  "disconnect issued" flag cleared, whether the client was connected already, the
  connection is accepted or it is refused. So after a refused \<open>connect()\<close> the flag is
  false and the client is not connected, and a null frame observed then starts a
  reconnection: \<open>websocket_connect\<close> is called once more, and when that attempt is refused
  too a retry is scheduled. After \<open>disconnect\<close>, which sets the flag, a null frame starts
  nothing.
\<close>

theorem connect_clears_disconnect_issued:
  assumes "\<not> ws_connecting_lock c"
  shows
    "(case connect accepted evs c of
        (out, evs', c') \<Rightarrow> out = Returned () \<and> evs' = evs \<and> \<not> disconnect_issued c') \<and>
     (\<not> is_connected c \<longrightarrow>
        (case connect False evs c of
           (out, evs', c') \<Rightarrow>
             \<not> disconnect_issued c' \<and> \<not> is_connected c' \<and>
             connect_attempts c' = connect_attempts c + 1 \<and>
             (case websocket_message Closed reaccepted later c' of
                (out2, later', c'') \<Rightarrow>
                  connect_attempts c'' = connect_attempts c' + 1 \<and>
                  (\<not> reaccepted \<longrightarrow>
                     out2 = Returned () \<and> \<not> is_connected c'' \<and>
                     retries_scheduled c'' = retries_scheduled c' + 1)))) \<and>
     (case websocket_message Closed reaccepted later (disconnect c) of
        (out2, later', c'') \<Rightarrow>
          out2 = Returned () \<and> connect_attempts c'' = connect_attempts c)"
proof (intro conjI impI)
  show "case connect accepted evs c of
        (out, evs', c') \<Rightarrow> out = Returned () \<and> evs' = evs \<and> \<not> disconnect_issued c'"
    using assms
    by (simp add: connect_def connect'_def after_connect_def connect_done_frame
          connect_failed_frame logging_def Let_def)
next
  assume off: "\<not> is_connected c"
  define c' where "c' = connect_done False (connect_failed False WebSocketError
        ((logging DEBUG ''Connecting to websocket %s'' []
            (c\<lparr>ws_connecting_lock := True, disconnect_issued := False\<rparr>))
         \<lparr>heart_beat_timer := False, connect_attempts := connect_attempts c + 1\<rparr>))"
  define c1 where "c1 = logging WARN ''Websocket server disconnected!'' [] c'"
  have result: "connect False evs c = (Returned (), evs, c')"
    using assms off by (simp add: connect_def connect'_refused c'_def)
  have flag: "\<not> disconnect_issued c'" and down: "\<not> is_connected c'"
    and tried: "connect_attempts c' = connect_attempts c + 1"
    using off
    by (simp_all add: c'_def connect_done_frame connect_failed_frame is_connected_def
          logging_def)
  have free: "\<not> ws_connecting_lock c'"
    by (simp add: c'_def connect_done_def)
  have free1: "\<not> ws_connecting_lock c1" and down1: "\<not> is_connected c1"
    and same1: "connect_attempts c1 = connect_attempts c'"
      "retries_scheduled c1 = retries_scheduled c'"
    using free down by (simp_all add: c1_def logging_def is_connected_def)
  have frame: "websocket_message Closed reaccepted later c' = connect' True reaccepted later c1"
    using flag down by (simp add: c1_def is_connected_def Let_def logging_def)
  obtain out2 later' c'' where again: "connect' True reaccepted later c1 = (out2, later', c'')"
    by (cases "connect' True reaccepted later c1")
  from connect'_attempts [OF free1 down1 again] same1
  have more: "connect_attempts c'' = connect_attempts c' + 1"
    by simp
  have refused: "out2 = Returned () \<and> \<not> is_connected c'' \<and>
      retries_scheduled c'' = retries_scheduled c' + 1" if "\<not> reaccepted"
    using that again connect'_refused [OF free1 down1, of True later] down1 same1
    by (auto simp: connect_done_frame connect_failed_frame is_connected_def logging_def)
  from flag down tried more refused
  show "case connect False evs c of
           (out, evs', c') \<Rightarrow>
             \<not> disconnect_issued c' \<and> \<not> is_connected c' \<and>
             connect_attempts c' = connect_attempts c + 1 \<and>
             (case websocket_message Closed reaccepted later c' of
                (out2, later', c'') \<Rightarrow>
                  connect_attempts c'' = connect_attempts c' + 1 \<and>
                  (\<not> reaccepted \<longrightarrow>
                     out2 = Returned () \<and> \<not> is_connected c'' \<and>
                     retries_scheduled c'' = retries_scheduled c' + 1))"
    by (simp add: result frame again del: websocket_message.simps)
next
  have "disconnect_issued (disconnect c)"
    by (simp add: disconnect_def logging_def Let_def split: option.splits)
  then show "case websocket_message Closed reaccepted later (disconnect c) of
        (out2, later', c'') \<Rightarrow>
          out2 = Returned () \<and> connect_attempts c'' = connect_attempts c"
    by (simp add: Let_def logging_def disconnect_frame)
qed


theorem connect_clears_disconnect_issued_witness:
  "\<not> ws_connecting_lock (disconnect (init True)) \<and>
   \<not> is_connected (disconnect (init True)) \<and>
   disconnect_issued (disconnect (init True)) \<and>
   \<not> disconnect_issued (snd (snd (connect False [] (disconnect (init True))))) \<and>
   connect_attempts (snd (snd (connect False [] (disconnect (init True))))) = 1 \<and>
   connect_attempts
     (snd (snd (websocket_message Closed True []
        (snd (snd (connect False [] (disconnect (init True)))))))) = 2"
proof -
  let ?c = "disconnect (init True)"
  have free: "\<not> ws_connecting_lock ?c" and off: "\<not> is_connected ?c"
    and flag: "disconnect_issued ?c" and none: "connect_attempts ?c = 0"
    by (simp_all add: disconnect_def init_def logging_def is_connected_def Let_def)
  from connect_clears_disconnect_issued [OF free, where accepted = False and evs = "[]"
      and reaccepted = True and later = "[]"] free off flag none
  show ?thesis
    by (simp add: case_prod_unfold del: websocket_message.simps)
qed

section \<open>Replay\<close>

lemma process_json_rpc_message_found:
  "pending_requests c msg_id = Some f \<Longrightarrow>
   process_json_rpc_message msg msg_id c = set_result f (reply_value msg) c"
  by (simp add: process_json_rpc_message_def reply_value_def Let_def)

lemma resend_step:
  assumes on: "ws c = Some conn" and plain: "plain_id req"
  shows "resend (req # reqs) ((t, Inbound (Message (req_id req) msg)) # evs) c =
         resend reqs evs
           (c\<lparr>futures := futures c @ [Done (reply_value msg)],
              pending_requests := (pending_requests c)(req_id req \<mapsto> length (futures c)),
              written := written c @ [(conn, req)],
              logger := logger c @
                [(INFO, ''Resending JSONRPCRequest %s'', [Request req]),
                 (INFO, ''Resent JSONRPCRequest, with result: %s'', [Value (reply_value msg)])],
              now := max (now c) t\<rparr>)"
proof -
  let ?c0 = "logging INFO ''Resending JSONRPCRequest %s'' [Request req] c"
  obtain f c1 where sent: "send req ?c0 = (f, c1)"
    by (cases "send req ?c0")
  have on0: "ws ?c0 = Some conn"
    using on by (simp add: logging_def)
  from plain have ids: "\<not> startswith (req_id req) ''redis-pubsub''"
    "\<not> startswith (req_id req) ''redis-reconnect''"
    by (simp_all add: plain_id_def)
  from sent send_connected [OF on0, of req]
  have f: "f = length (futures c)"
    and c1: "c1 = ?c0\<lparr>futures := futures ?c0 @ [Pending],
        pending_requests := (pending_requests ?c0)(req_id req \<mapsto> length (futures ?c0)),
        written := written ?c0 @ [(conn, req)]\<rparr>"
    by (auto simp: logging_def)
  have at: "pending_requests (advance t c1) (req_id req) = Some f"
    by (simp add: c1 f advance_def logging_def)
  have waited: "await_future f ((t, Inbound (Message (req_id req) msg)) # evs) c1 =
      (Returned (reply_value msg), evs, set_result f (reply_value msg) (advance t c1))"
    using send_then_reply [OF sent on0 ids, of t msg evs]
    by (simp add: process_json_rpc_message_found [OF at])
  have "logging INFO ''Resent JSONRPCRequest, with result: %s'' [Value (reply_value msg)]
          (set_result f (reply_value msg) (advance t c1)) =
        c\<lparr>futures := futures c @ [Done (reply_value msg)],
              pending_requests := (pending_requests c)(req_id req \<mapsto> length (futures c)),
              written := written c @ [(conn, req)],
              logger := logger c @
                [(INFO, ''Resending JSONRPCRequest %s'', [Request req]),
                 (INFO, ''Resent JSONRPCRequest, with result: %s'', [Value (reply_value msg)])],
              now := max (now c) t\<rparr>"
    by (simp add: c1 f set_result_def advance_def logging_def)
  with sent waited show ?thesis
    by simp
qed

lemma resend_answered:
  assumes "ws c = Some conn" and "length replies = length reqs"
    and "\<forall>req\<in>set reqs. plain_id req"
  shows "\<exists>c'. resend reqs (answers_of reqs replies @ rest) c = (Returned (), rest, c') \<and>
           written c' = written c @ map (Pair conn) reqs \<and>
           logger c' = logger c @ replay_log reqs replies \<and>
           ws c' = ws c \<and> retries_scheduled c' = retries_scheduled c \<and>
           connect_attempts c' = connect_attempts c \<and>
           ws_jsonrpc_cache c' = ws_jsonrpc_cache c"
  using assms
proof (induction reqs arbitrary: replies c)
  case Nil
  then show ?case
    by (simp add: answers_of_def replay_log_def)
next
  case (Cons req reqs)
  from Cons.prems(2) obtain t msg replies' where replies: "replies = (t, msg) # replies'"
    and len: "length replies' = length reqs"
    by (cases replies) auto
  let ?c1 = "c\<lparr>futures := futures c @ [Done (reply_value msg)],
              pending_requests := (pending_requests c)(req_id req \<mapsto> length (futures c)),
              written := written c @ [(conn, req)],
              logger := logger c @
                [(INFO, ''Resending JSONRPCRequest %s'', [Request req]),
                 (INFO, ''Resent JSONRPCRequest, with result: %s'', [Value (reply_value msg)])],
              now := max (now c) t\<rparr>"
  from Cons.prems have plain: "plain_id req" and rest_plain: "\<forall>r\<in>set reqs. plain_id r"
    by simp_all
  have on1: "ws ?c1 = Some conn"
    using Cons.prems(1) by simp
  from Cons.IH [OF on1 len rest_plain] obtain c' where
    run: "resend reqs (answers_of reqs replies' @ rest) ?c1 = (Returned (), rest, c')"
    and facts: "written c' = written ?c1 @ map (Pair conn) reqs"
      "logger c' = logger ?c1 @ replay_log reqs replies'"
      "ws c' = ws ?c1" "retries_scheduled c' = retries_scheduled ?c1"
      "connect_attempts c' = connect_attempts ?c1"
      "ws_jsonrpc_cache c' = ws_jsonrpc_cache ?c1"
    by blast
  have "resend (req # reqs) (answers_of (req # reqs) replies @ rest) c =
        resend reqs (answers_of reqs replies' @ rest) ?c1"
    using resend_step [OF Cons.prems(1) plain, of reqs t msg "answers_of reqs replies' @ rest"]
    by (simp add: answers_of_def replies)
  with run facts show ?case
    by (simp add: replay_log_def replies)
qed

lemma resend_disconnected:
  "ws c = None \<Longrightarrow>
   resend (req # reqs) evs c =
     (Raised (PyException not_connected_msg), evs,
      c\<lparr>futures := futures c @ [Failed (PyException not_connected_msg)],
        logger := logger c @ [(INFO, ''Resending JSONRPCRequest %s'', [Request req]),
                              (ERROR, not_connected_msg, [])]\<rparr>)"
proof -
  assume off: "ws c = None"
  let ?c0 = "logging INFO ''Resending JSONRPCRequest %s'' [Request req] c"
  let ?c1 = "c\<lparr>futures := futures c @ [Failed (PyException not_connected_msg)],
        logger := logger c @ [(INFO, ''Resending JSONRPCRequest %s'', [Request req]),
                              (ERROR, not_connected_msg, [])]\<rparr>"
  from off have off0: "ws ?c0 = None"
    by (simp add: logging_def)
  have sent: "send req ?c0 = (length (futures c), ?c1)"
    by (simp add: send_disconnected [OF off0]) (simp add: logging_def)
  have "future_state ?c1 (length (futures c)) = Failed (PyException not_connected_msg)"
    by (simp add: future_state_def)
  from await_future_resolved(2) [OF this] sent show ?thesis
    by simp
qed


lemmas run_defs = connect_def connect'_def after_connect_def connect_done_def connect_failed_def
  subscribe_def unsubscribe_def set_sampling_strategy_def send_and_cache_def send_def
  JSONRPCRequest_def logging_def advance_def is_connected_def future_state_def set_result_def
  set_exception_def process_json_rpc_message_def dict_get_def startswith_def
  cache_jsonrpc_request_def method_and_params_hash_def index_def disconnect_def
  resend_subscriptions_and_strategies_def not_connected_msg_def init_def

lemma subscribed_eval:
  "ws subscribed = Some 1" "ws_jsonrpc_cache subscribed = [req_a, req_b, req_c]"
  "written subscribed = [(1, req_a), (1, req_b), (1, req_c)]"
  by (simp_all add: subscribed_def subscribed_a_def subscribed_b_def connected_client_def ok_reply_def req_a_def req_b_def req_c_def run_defs Let_def)


text \<open>
  Claim C3, as amended. Replaying the ledger after a reconnect resends the cached entries in
  their insertion order, awaiting each in turn: when every entry is answered, whether with a
  result or with an error payload, every entry is written to the new connection in order,
  each answer is logged as the result of its entry, and the reconnect completes (the
  heartbeat is started, no retry is scheduled). A send that fails because the client is not
  connected at that moment raises out of the loop: nothing is written for that entry or for
  the entries after it. And an exception that leaves the replay is caught by \<open>_connect\<close>
  as a failed connection attempt: it is logged, another attempt is scheduled, and the
  heartbeat is not started.
\<close>

theorem replay_of_the_ledger:
  "(ws c = Some conn \<and> length replies = length (ws_jsonrpc_cache c) \<and>
    (\<forall>req\<in>set (ws_jsonrpc_cache c). plain_id req) \<longrightarrow>
      (case after_connect True (answers_of (ws_jsonrpc_cache c) replies @ rest) c of
         (out, evs', c') \<Rightarrow>
           out = Returned () \<and> evs' = rest \<and>
           written c' = written c @ map (Pair conn) (ws_jsonrpc_cache c) \<and>
           logger c' = logger c @ replay_log (ws_jsonrpc_cache c) replies
                         @ [(INFO, ''Reconnected :)'', [])] \<and>
           heart_beat_timer c' \<and> retries_scheduled c' = retries_scheduled c)) \<and>
   (ws c = None \<longrightarrow>
      (case resend (req # reqs) evs c of
         (out, evs', c') \<Rightarrow>
           out = Raised (PyException not_connected_msg) \<and> evs' = evs \<and>
           written c' = written c \<and>
           logger c' = logger c @ [(INFO, ''Resending JSONRPCRequest %s'', [Request req]),
                                   (ERROR, not_connected_msg, [])])) \<and>
   (resend_subscriptions_and_strategies evs c = (Raised e, left, c1) \<longrightarrow>
      (case after_connect True evs c of
         (out, evs', c') \<Rightarrow>
           out = Returned () \<and> evs' = left \<and>
           written c' = written c1 \<and>
           logger c' = logger c1 @
             [(EXCEPTION, ''Could not connect websocket to %s'', [Failure e]),
              (INFO, ''Retrying connection in %s seconds...'', [])] \<and>
           heart_beat_timer c' = heart_beat_timer c1 \<and>
           retries_scheduled c' = retries_scheduled c1 + 1))"
proof (intro conjI impI)
  assume h: "ws c = Some conn \<and> length replies = length (ws_jsonrpc_cache c) \<and>
    (\<forall>req\<in>set (ws_jsonrpc_cache c). plain_id req)"
  then have on: "ws c = Some conn" and len: "length replies = length (ws_jsonrpc_cache c)"
    and plain: "\<forall>req\<in>set (ws_jsonrpc_cache c). plain_id req"
    by simp_all
  from resend_answered [OF on len plain, of rest] obtain c' where
    run: "resend (ws_jsonrpc_cache c) (answers_of (ws_jsonrpc_cache c) replies @ rest) c
            = (Returned (), rest, c')"
    and facts: "written c' = written c @ map (Pair conn) (ws_jsonrpc_cache c)"
      "logger c' = logger c @ replay_log (ws_jsonrpc_cache c) replies"
      "retries_scheduled c' = retries_scheduled c"
    by blast
  from run facts
  show "case after_connect True (answers_of (ws_jsonrpc_cache c) replies @ rest) c of
         (out, evs', c') \<Rightarrow>
           out = Returned () \<and> evs' = rest \<and>
           written c' = written c @ map (Pair conn) (ws_jsonrpc_cache c) \<and>
           logger c' = logger c @ replay_log (ws_jsonrpc_cache c) replies
                         @ [(INFO, ''Reconnected :)'', [])] \<and>
           heart_beat_timer c' \<and> retries_scheduled c' = retries_scheduled c"
    by (simp add: after_connect_def resend_subscriptions_and_strategies_def connect_done_def
          logging_def)
next
  assume "ws c = None"
  from resend_disconnected [OF this, of req reqs evs]
  show "case resend (req # reqs) evs c of
         (out, evs', c') \<Rightarrow>
           out = Raised (PyException not_connected_msg) \<and> evs' = evs \<and>
           written c' = written c \<and>
           logger c' = logger c @ [(INFO, ''Resending JSONRPCRequest %s'', [Request req]),
                                   (ERROR, not_connected_msg, [])]"
    by simp
next
  assume "resend_subscriptions_and_strategies evs c = (Raised e, left, c1)"
  then show "case after_connect True evs c of
         (out, evs', c') \<Rightarrow>
           out = Returned () \<and> evs' = left \<and>
           written c' = written c1 \<and>
           logger c' = logger c1 @
             [(EXCEPTION, ''Could not connect websocket to %s'', [Failure e]),
              (INFO, ''Retrying connection in %s seconds...'', [])] \<and>
           heart_beat_timer c' = heart_beat_timer c1 \<and>
           retries_scheduled c' = retries_scheduled c1 + 1"
    by (simp add: after_connect_def connect_done_def connect_failed_def logging_def Let_def)
qed


lemma scenario_ids:
  "plain_id req_a" "plain_id req_b" "plain_id req_c"
  by (simp_all add: plain_id_def req_a_def req_b_def req_c_def JSONRPCRequest_def
        startswith_def)

lemma interrupted_replay:
  "resend_subscriptions_and_strategies
     [(10, Disconnect_called), (11, Inbound (Message ''a1'' (ok_reply ''a1'')))] subscribed =
   (Raised (PyException not_connected_msg), [],
    snd (snd (resend_subscriptions_and_strategies
      [(10, Disconnect_called), (11, Inbound (Message ''a1'' (ok_reply ''a1'')))] subscribed)))"
proof -
  have "fst (resend_subscriptions_and_strategies
     [(10, Disconnect_called), (11, Inbound (Message ''a1'' (ok_reply ''a1'')))] subscribed)
      = Raised (PyException not_connected_msg)"
    and "fst (snd (resend_subscriptions_and_strategies
     [(10, Disconnect_called), (11, Inbound (Message ''a1'' (ok_reply ''a1'')))] subscribed))
      = []"
    by (simp_all add: subscribed_def subscribed_a_def subscribed_b_def connected_client_def
          ok_reply_def run_defs Let_def)
  then show ?thesis
    by (metis prod.collapse)
qed

theorem replay_of_the_ledger_witness:
  "ws subscribed = Some 1 \<and>
   ws_jsonrpc_cache subscribed = [req_a, req_b, req_c] \<and>
   plain_id req_a \<and> plain_id req_b \<and> plain_id req_c \<and>
   written (snd (snd (after_connect True
      (answers_of [req_a, req_b, req_c]
         [(4, ok_reply ''a1''), (5, error_reply ''b2''), (6, ok_reply ''c3'')] @ [])
      subscribed)))
     = written subscribed @ [(1, req_a), (1, req_b), (1, req_c)] \<and>
   heart_beat_timer (snd (snd (after_connect True
      (answers_of [req_a, req_b, req_c]
         [(4, ok_reply ''a1''), (5, error_reply ''b2''), (6, ok_reply ''c3'')] @ [])
      subscribed))) \<and>
   ws (init True) = None \<and>
   fst (resend [req_a, req_b] [] (init True)) = Raised (PyException not_connected_msg) \<and>
   fst (resend_subscriptions_and_strategies
     [(10, Disconnect_called), (11, Inbound (Message ''a1'' (ok_reply ''a1'')))] subscribed)
     = Raised (PyException not_connected_msg) \<and>
   fst (after_connect True
     [(10, Disconnect_called), (11, Inbound (Message ''a1'' (ok_reply ''a1'')))] subscribed)
     = Returned () \<and>
   retries_scheduled (snd (snd (after_connect True
     [(10, Disconnect_called), (11, Inbound (Message ''a1'' (ok_reply ''a1'')))] subscribed)))
     = retries_scheduled (snd (snd (resend_subscriptions_and_strategies
         [(10, Disconnect_called), (11, Inbound (Message ''a1'' (ok_reply ''a1'')))]
         subscribed))) + 1"
proof -
  let ?interrupt = "[(10, Disconnect_called), (11, Inbound (Message ''a1'' (ok_reply ''a1'')))]"
  have off: "ws (init True) = None"
    by (simp add: init_def)
  note a = replay_of_the_ledger [where c = subscribed and conn = 1 and rest = "[]"
      and replies = "[(4, ok_reply ''a1''), (5, error_reply ''b2''), (6, ok_reply ''c3'')]",
      THEN conjunct1]
  note b = replay_of_the_ledger [where c = "init True" and req = req_a and reqs = "[req_b]"
      and evs = "[]", THEN conjunct2, THEN conjunct1]
  note c = replay_of_the_ledger [where c = subscribed and evs = ?interrupt
      and e = "PyException not_connected_msg" and left = "[]"
      and ?c1.0 = "snd (snd (resend_subscriptions_and_strategies ?interrupt subscribed))",
      THEN conjunct2, THEN conjunct2]
  have answered: "written (snd (snd (after_connect True
      (answers_of [req_a, req_b, req_c]
         [(4, ok_reply ''a1''), (5, error_reply ''b2''), (6, ok_reply ''c3'')] @ [])
      subscribed)))
     = written subscribed @ [(1, req_a), (1, req_b), (1, req_c)] \<and>
   heart_beat_timer (snd (snd (after_connect True
      (answers_of [req_a, req_b, req_c]
         [(4, ok_reply ''a1''), (5, error_reply ''b2''), (6, ok_reply ''c3'')] @ [])
      subscribed)))"
    using a subscribed_eval scenario_ids
    by (simp add: case_prod_unfold)
  have refused: "fst (resend [req_a, req_b] [] (init True))
      = Raised (PyException not_connected_msg)"
    using b off
    by (simp add: case_prod_unfold del: resend.simps)
  have caught: "fst (after_connect True ?interrupt subscribed) = Returned () \<and>
    retries_scheduled (snd (snd (after_connect True ?interrupt subscribed)))
     = retries_scheduled (snd (snd (resend_subscriptions_and_strategies ?interrupt
         subscribed))) + 1"
    using c interrupted_replay
    by (simp add: case_prod_unfold)
  have raised: "fst (resend_subscriptions_and_strategies ?interrupt subscribed)
      = Raised (PyException not_connected_msg)"
    using interrupted_replay by (metis fst_conv)
  from answered refused caught raised subscribed_eval scenario_ids off
  show ?thesis
    by (simp del: resend.simps)
qed

text \<open>
  The claim as stated fails. The client holds three ledger entries on connection 1. The
  channel closes, a new connection is accepted and the replay resends the first entry.
  While the replay waits for the answer the application calls \<open>disconnect\<close>, and then the
  answer, already under way, arrives. The send of the second entry fails, the client being
  disconnected, and that failure ends the replay: the third entry is never taken up, and
  the reconnect is handled as failed, with a retry scheduled and no heartbeat.
\<close>

theorem replay_aborted_counterexample:
  "fst (websocket_message Closed True
          [(10, Disconnect_called), (11, Inbound (Message ''a1'' (ok_reply ''a1'')))]
          subscribed) = Returned () \<and>
   written (snd (snd (websocket_message Closed True
          [(10, Disconnect_called), (11, Inbound (Message ''a1'' (ok_reply ''a1'')))]
          subscribed)))
     = [(1, req_a), (1, req_b), (1, req_c), (2, req_a)] \<and>
   count_list (logger (snd (snd (websocket_message Closed True
          [(10, Disconnect_called), (11, Inbound (Message ''a1'' (ok_reply ''a1'')))]
          subscribed))))
     (INFO, ''Resending JSONRPCRequest %s'', [Request req_c]) = 0 \<and>
   count_list (logger (snd (snd (websocket_message Closed True
          [(10, Disconnect_called), (11, Inbound (Message ''a1'' (ok_reply ''a1'')))]
          subscribed))))
     (EXCEPTION, ''Could not connect websocket to %s'',
      [Failure (PyException not_connected_msg)]) = 1 \<and>
   retries_scheduled (snd (snd (websocket_message Closed True
          [(10, Disconnect_called), (11, Inbound (Message ''a1'' (ok_reply ''a1'')))]
          subscribed))) = 1 \<and>
   \<not> heart_beat_timer (snd (snd (websocket_message Closed True
          [(10, Disconnect_called), (11, Inbound (Message ''a1'' (ok_reply ''a1'')))]
          subscribed)))"
  by (simp add: subscribed_def subscribed_a_def subscribed_b_def connected_client_def
        ok_reply_def req_a_def req_b_def req_c_def run_defs Let_def)

section \<open>What is never taken out of the map of pending requests\<close>

lemma logging_pending:
  "pending_requests (logging lvl txt args c) = pending_requests c"
  by (simp add: logging_def)

lemma hand_to_callback_pending:
  "pending_requests (hand_to_callback m c) = pending_requests c"
  by (simp add: hand_to_callback_def logging_pending)

lemma processing_failed_pending:
  "pending_requests (processing_failed m c) = pending_requests c"
  by (simp add: processing_failed_def hand_to_callback_pending logging_pending)

lemma receive_history_pending:
  "pending_requests (snd (receive_history msg_result msg_data namespace state c))
     = pending_requests c"
  by (simp add: receive_history_def logging_pending
        split: json.splits prod.splits option.splits)

lemma process_redis_message_pending:
  "pending_requests (snd (process_redis_message msg msg_id c)) = pending_requests c"
  by (simp add: process_redis_message_def hand_to_callback_pending receive_history_pending
        Let_def split: sum.splits json.splits option.splits bool.splits)

lemma websocket_message_now_pending:
  assumes "websocket_message_now fr c = Some c'"
  shows "pending_requests c' = pending_requests c"
proof (cases fr)
  case Closed
  with assms show ?thesis
    by (auto simp: logging_pending Let_def split: if_splits)
next
  case (Malformed m)
  with assms show ?thesis
    by (auto simp: processing_failed_pending)
next
  case (Message msg_id msg)
  with assms show ?thesis
    by (auto simp: process_redis_message_pending process_json_rpc_message_pending
          split: if_splits)
qed

lemma deliver_pending:
  assumes "deliver ev c = Some c'"
  shows "pending_requests c' = pending_requests c"
proof (cases ev)
  case Disconnect_called
  with assms show ?thesis
    by (auto simp: disconnect_pending)
next
  case (Inbound fr)
  with assms websocket_message_now_pending [of fr c c'] show ?thesis
    by simp
qed

lemma await_future_pending:
  "await_future f evs c = (out, evs', c') \<Longrightarrow> pending_requests c' = pending_requests c"
proof (induction f evs c rule: await_future.induct)
  case (1 f c)
  then show ?case
    by (auto split: future.splits)
next
  case (2 f t ev evs c)
  show ?case
  proof (cases "future_state c f")
    case Pending
    show ?thesis
    proof (cases "deliver ev (advance t c)")
      case None
      with Pending "2.prems" show ?thesis
        by (auto simp: advance_def)
    next
      case (Some c1)
      from deliver_pending [OF Some]
      have "pending_requests c1 = pending_requests c"
        by (simp add: advance_def)
      moreover from Pending Some "2.prems" have "await_future f evs c1 = (out, evs', c')"
        by simp
      from "2.IH" [OF Pending Some this]
      have "pending_requests c' = pending_requests c1" .
      ultimately show ?thesis by simp
    qed
  next
    case (Done v)
    with "2.prems" show ?thesis by auto
  next
    case (Failed e)
    with "2.prems" show ?thesis by auto
  qed
qed

lemma send_pending:
  "pending_requests (snd (send req c)) =
     (if is_connected c then (pending_requests c)(req_id req \<mapsto> fst (send req c))
      else pending_requests c)"
  by (simp add: send_def set_exception_def logging_def is_connected_def Let_def
        split: option.splits)

lemma send_keeps:
  "pending_requests c k \<noteq> None \<Longrightarrow> pending_requests (snd (send req c)) k \<noteq> None"
  by (simp add: send_pending)

lemma resend_keeps:
  "resend reqs evs c = (out, evs', c') \<Longrightarrow> pending_requests c k \<noteq> None \<Longrightarrow>
   pending_requests c' k \<noteq> None"
proof (induction reqs arbitrary: evs c)
  case Nil
  then show ?case by simp
next
  case (Cons req reqs)
  let ?c0 = "logging INFO ''Resending JSONRPCRequest %s'' [Request req] c"
  obtain f c1 where sent: "send req ?c0 = (f, c1)"
    by (cases "send req ?c0")
  obtain o2 later c2 where waited: "await_future f evs c1 = (o2, later, c2)"
    by (cases "await_future f evs c1")
  from Cons.prems(2) have "pending_requests ?c0 k \<noteq> None"
    by (simp add: logging_pending)
  from send_keeps [OF this, of req] sent have a1: "pending_requests c1 k \<noteq> None"
    by simp
  from await_future_pending [OF waited] a1 have a2: "pending_requests c2 k \<noteq> None"
    by simp
  show ?case
  proof (cases o2)
    case (Returned result)
    let ?c3 = "logging INFO ''Resent JSONRPCRequest, with result: %s'' [Value result] c2"
    from Returned Cons.prems(1) sent waited
    have "resend reqs later ?c3 = (out, evs', c')"
      by simp
    moreover from a2 have "pending_requests ?c3 k \<noteq> None"
      by (simp add: logging_pending)
    ultimately show ?thesis
      by (rule Cons.IH)
  next
    case (Raised e)
    with Cons.prems sent waited a2 show ?thesis by simp
  next
    case Suspended
    with Cons.prems sent waited a2 show ?thesis by simp
  next
    case Not_modelled
    with Cons.prems sent waited a2 show ?thesis by simp
  qed
qed

lemma connect_done_pending:
  "pending_requests (connect_done r c) = pending_requests c"
  by (simp add: connect_done_def logging_def)

lemma connect_failed_pending:
  "pending_requests (connect_failed r e c) = pending_requests c"
  by (simp add: connect_failed_def logging_def Let_def)

lemma after_connect_keeps:
  assumes "after_connect r evs c = (out, evs', c')" and "pending_requests c k \<noteq> None"
  shows "pending_requests c' k \<noteq> None"
proof (cases r)
  case False
  with assms show ?thesis
    by (auto simp: after_connect_def connect_done_pending)
next
  case True
  obtain o1 evs1 c1 where replay: "resend (ws_jsonrpc_cache c) evs c = (o1, evs1, c1)"
    by (cases "resend (ws_jsonrpc_cache c) evs c")
  from resend_keeps [OF replay assms(2)] have "pending_requests c1 k \<noteq> None" .
  with assms(1) True replay show ?thesis
    by (cases o1)
       (auto simp: after_connect_def resend_subscriptions_and_strategies_def
          connect_done_pending connect_failed_pending logging_def)
qed

lemma connect'_keeps:
  assumes "connect' r a evs c = (out, evs', c')" and "pending_requests c k \<noteq> None"
  shows "pending_requests c' k \<noteq> None"
proof (cases "ws_connecting_lock c \<or> is_connected c")
  case True
  with assms show ?thesis
    by (auto simp: connect'_def is_connected_def Let_def split: if_splits)
next
  case False
  then have free: "\<not> ws_connecting_lock c" and off: "\<not> is_connected c"
    by simp_all
  show ?thesis
  proof (cases a)
    case False
    with assms show ?thesis
      by (auto simp: connect'_refused [OF free off] connect_done_pending
            connect_failed_pending logging_def)
  next
    case True
    let ?c1 = "(logging DEBUG ''Connecting to websocket %s'' []
           (c\<lparr>ws_connecting_lock := True, disconnect_issued := False\<rparr>))
        \<lparr>heart_beat_timer := False, connect_attempts := connect_attempts c + 1,
          ws := Some (connect_attempts c + 1)\<rparr>"
    from True assms(1) have "after_connect r evs ?c1 = (out, evs', c')"
      by (simp add: connect'_accepted [OF free off])
    moreover from assms(2) have "pending_requests ?c1 k \<noteq> None"
      by (simp add: logging_def)
    ultimately show ?thesis
      by (rule after_connect_keeps)
  qed
qed

lemma websocket_message_keeps:
  assumes "websocket_message fr a evs c = (out, evs', c')" and "pending_requests c k \<noteq> None"
  shows "pending_requests c' k \<noteq> None"
proof (cases fr)
  case Closed
  define c1 where "c1 = logging WARN ''Websocket server disconnected!'' [] c"
  define c2 where "c2 = (case ws c1 of
                Some conn \<Rightarrow> c1\<lparr>closed_connections := closed_connections c1 @ [conn], ws := None\<rparr>
              | None \<Rightarrow> c1)"
  have p1: "pending_requests c1 k \<noteq> None"
    using assms(2) by (simp add: c1_def logging_def)
  then have p2: "pending_requests c2 k \<noteq> None"
    by (simp add: c2_def split: option.splits)
  show ?thesis
  proof (cases "disconnect_issued c1")
    case True
    with assms(1) Closed p1 show ?thesis
      by (auto simp: c1_def Let_def)
  next
    case False
    with assms(1) Closed have "connect' True a evs c2 = (out, evs', c')"
      unfolding c2_def c1_def by (simp add: Let_def)
    from connect'_keeps [OF this p2] show ?thesis .
  qed
next
  case (Malformed m)
  with assms show ?thesis
    by (auto simp: processing_failed_pending)
next
  case (Message msg_id msg)
  show ?thesis
  proof (cases "\<not> startswith msg_id ''redis-pubsub'' \<and> startswith msg_id ''redis-reconnect''")
    case False
    with assms Message show ?thesis
      by (auto simp: process_redis_message_pending process_json_rpc_message_pending
            split: if_splits)
  next
    case True
    let ?subs = "filter (\<lambda>req. method' req = ''subscribe'') (ws_jsonrpc_cache c)"
    obtain o1 evs1 c1 where replay: "resend ?subs evs c = (o1, evs1, c1)"
      by (cases "resend ?subs evs c")
    from resend_keeps [OF replay assms(2)] have "pending_requests c1 k \<noteq> None" .
    with assms(1) Message True replay show ?thesis
      by (cases o1) (auto simp: resend_subscriptions_def processing_failed_pending)
  qed
qed

lemma send_and_cache_keeps:
  assumes "send_and_cache req evs c = (out, evs', c')" and "pending_requests c k \<noteq> None"
  shows "pending_requests c' k \<noteq> None"
proof -
  obtain f c1 where sent: "send req c = (f, c1)"
    by (cases "send req c")
  obtain o2 later c2 where waited: "await_future f evs c1 = (o2, later, c2)"
    by (cases "await_future f evs c1")
  from send_keeps [OF assms(2), of req] sent have "pending_requests c1 k \<noteq> None"
    by simp
  with await_future_pending [OF waited] have "pending_requests c2 k \<noteq> None"
    by simp
  with assms(1) sent waited show ?thesis
    by (cases o2) (auto simp: send_and_cache_def split: sum.splits)
qed


lemma send_other:
  "k \<noteq> req_id req \<Longrightarrow> pending_requests (snd (send req c)) k = pending_requests c k"
  by (simp add: send_pending)

lemma resend_other:
  "resend reqs evs c = (out, evs', c') \<Longrightarrow> k \<notin> req_id ` set reqs \<Longrightarrow>
   pending_requests c' k = pending_requests c k"
proof (induction reqs arbitrary: evs c)
  case Nil
  then show ?case by simp
next
  case (Cons req reqs)
  let ?c0 = "logging INFO ''Resending JSONRPCRequest %s'' [Request req] c"
  obtain f c1 where sent: "send req ?c0 = (f, c1)"
    by (cases "send req ?c0")
  obtain o2 later c2 where waited: "await_future f evs c1 = (o2, later, c2)"
    by (cases "await_future f evs c1")
  from Cons.prems(2) have k: "k \<noteq> req_id req" and rest: "k \<notin> req_id ` set reqs"
    by auto
  from send_other [OF k, of ?c0] sent have a1: "pending_requests c1 k = pending_requests c k"
    by (simp add: logging_pending)
  from await_future_pending [OF waited] a1 have a2: "pending_requests c2 k = pending_requests c k"
    by simp
  show ?case
  proof (cases o2)
    case (Returned result)
    let ?c3 = "logging INFO ''Resent JSONRPCRequest, with result: %s'' [Value result] c2"
    from Returned Cons.prems(1) sent waited
    have "resend reqs later ?c3 = (out, evs', c')"
      by simp
    from Cons.IH [OF this rest] a2 show ?thesis
      by (simp add: logging_pending)
  next
    case (Raised e)
    with Cons.prems sent waited a2 show ?thesis by simp
  next
    case Suspended
    with Cons.prems sent waited a2 show ?thesis by simp
  next
    case Not_modelled
    with Cons.prems sent waited a2 show ?thesis by simp
  qed
qed

lemma after_connect_other:
  assumes "after_connect r evs c = (out, evs', c')"
    and "k \<notin> req_id ` set (ws_jsonrpc_cache c)"
  shows "pending_requests c' k = pending_requests c k"
proof (cases r)
  case False
  with assms show ?thesis
    by (auto simp: after_connect_def connect_done_pending)
next
  case True
  obtain o1 evs1 c1 where replay: "resend (ws_jsonrpc_cache c) evs c = (o1, evs1, c1)"
    by (cases "resend (ws_jsonrpc_cache c) evs c")
  from resend_other [OF replay assms(2)] have "pending_requests c1 k = pending_requests c k" .
  with assms(1) True replay show ?thesis
    by (cases o1)
       (auto simp: after_connect_def resend_subscriptions_and_strategies_def
          connect_done_pending connect_failed_pending logging_def)
qed

lemma connect'_other:
  assumes "connect' r a evs c = (out, evs', c')"
    and "k \<notin> req_id ` set (ws_jsonrpc_cache c)"
  shows "pending_requests c' k = pending_requests c k"
proof (cases "ws_connecting_lock c \<or> is_connected c")
  case True
  with assms show ?thesis
    by (auto simp: connect'_def is_connected_def Let_def split: if_splits)
next
  case False
  then have free: "\<not> ws_connecting_lock c" and off: "\<not> is_connected c"
    by simp_all
  show ?thesis
  proof (cases a)
    case False
    with assms show ?thesis
      by (auto simp: connect'_refused [OF free off] connect_done_pending
            connect_failed_pending logging_def)
  next
    case True
    let ?c1 = "(logging DEBUG ''Connecting to websocket %s'' []
           (c\<lparr>ws_connecting_lock := True, disconnect_issued := False\<rparr>))
        \<lparr>heart_beat_timer := False, connect_attempts := connect_attempts c + 1,
          ws := Some (connect_attempts c + 1)\<rparr>"
    from True assms(1) have "after_connect r evs ?c1 = (out, evs', c')"
      by (simp add: connect'_accepted [OF free off])
    moreover from assms(2) have "k \<notin> req_id ` set (ws_jsonrpc_cache ?c1)"
      by (simp add: logging_def)
    ultimately have "pending_requests c' k = pending_requests ?c1 k"
      by (rule after_connect_other)
    then show ?thesis
      by (simp add: logging_def)
  qed
qed

lemma transport_loss_other:
  assumes "websocket_message Closed a evs c = (out, evs', c')"
    and "k \<notin> req_id ` set (ws_jsonrpc_cache c)"
  shows "pending_requests c' k = pending_requests c k"
proof -
  define c1 where "c1 = logging WARN ''Websocket server disconnected!'' [] c"
  define c2 where "c2 = (case ws c1 of
                Some conn \<Rightarrow> c1\<lparr>closed_connections := closed_connections c1 @ [conn], ws := None\<rparr>
              | None \<Rightarrow> c1)"
  have p1: "pending_requests c1 = pending_requests c"
    and l1: "ws_jsonrpc_cache c1 = ws_jsonrpc_cache c"
    by (simp_all add: c1_def logging_def)
  then have p2: "pending_requests c2 = pending_requests c"
    and l2: "ws_jsonrpc_cache c2 = ws_jsonrpc_cache c"
    by (simp_all add: c2_def split: option.splits)
  show ?thesis
  proof (cases "disconnect_issued c1")
    case True
    with assms(1) p1 show ?thesis
      by (auto simp: c1_def Let_def)
  next
    case False
    with assms(1) have "connect' True a evs c2 = (out, evs', c')"
      unfolding c2_def c1_def by (simp add: Let_def)
    from connect'_other [OF this, of k] assms(2) l2 p2 show ?thesis
      by simp
  qed
qed

text \<open>
  Claim C4, as amended. A request sent while the client is connected gets one Pending
  Operation, created when the request is sent: \<open>_send\<close> stores the future it returns,
  unresolved, in the map of pending requests under the request's id, and changes no other
  entry. The entry is not destroyed afterwards. The matching response resolves the future
  and leaves the entry in the map, and so does \<open>disconnect\<close>, also when the null frame
  follows it. When the transport is lost (the null frame with no disconnect issued, and the
  reconnection and replay it starts) the map still has an entry under the request's id, and
  it is the entry made by the send unless the replay sends a ledger entry of the same id,
  which then takes its place. And none of these steps takes any entry out of the map: a
  response, \<open>disconnect\<close>, a send, an inbound frame with what it starts, \<open>connect\<close>, a call
  that is recorded in the ledger.
\<close>

theorem pending_operation_is_kept:
  "(is_connected c \<longrightarrow>
     (case send req c of
        (future, c1) \<Rightarrow>
          pending_requests c1 = (pending_requests c)(req_id req \<mapsto> future) \<and>
          future_state c1 future = Pending \<and>
          future_state (process_json_rpc_message msg (req_id req) c1) future
            = Done (reply_value msg) \<and>
          pending_requests (process_json_rpc_message msg (req_id req) c1) (req_id req)
            = Some future \<and>
          pending_requests (disconnect c1) (req_id req) = Some future \<and>
          (case websocket_message Closed accepted evs c1 of
             (out, evs', c2) \<Rightarrow>
               pending_requests c2 (req_id req) \<noteq> None \<and>
               (req_id req \<notin> req_id ` set (ws_jsonrpc_cache c) \<longrightarrow>
                  pending_requests c2 (req_id req) = Some future)) \<and>
          (case websocket_message Closed accepted evs (disconnect c1) of
             (out, evs', c2) \<Rightarrow> pending_requests c2 (req_id req) = Some future))) \<and>
   (pending_requests c k \<noteq> None \<longrightarrow>
      pending_requests (process_json_rpc_message msg msg_id c) k = pending_requests c k \<and>
      pending_requests (disconnect c) k = pending_requests c k \<and>
      pending_requests (snd (send req c)) k \<noteq> None \<and>
      (case websocket_message fr accepted evs c of
         (out, evs', c') \<Rightarrow> pending_requests c' k \<noteq> None) \<and>
      (case connect accepted evs c of
         (out, evs', c') \<Rightarrow> pending_requests c' k \<noteq> None) \<and>
      (case send_and_cache req evs c of
         (out, evs', c') \<Rightarrow> pending_requests c' k \<noteq> None))"
proof (intro conjI impI)
  assume on: "is_connected c"
  obtain future c1 where sent: "send req c = (future, c1)"
    by (cases "send req c")
  from send_connected_entry [OF on, of req] sent
  have entry: "pending_requests c1 = (pending_requests c)(req_id req \<mapsto> future)"
    and fresh: "future_state c1 future = Pending"
    by simp_all
  from send_connected_reply [OF on, of msg req] sent
  have answered: "future_state (process_json_rpc_message msg (req_id req) c1) future
      = Done (reply_value msg)"
    by simp
  from entry have there: "pending_requests c1 (req_id req) \<noteq> None"
    by simp
  from send_cache [of req c] sent have ledger: "ws_jsonrpc_cache c1 = ws_jsonrpc_cache c"
    by simp
  have lost: "case websocket_message Closed accepted evs c1 of
      (out, evs', c2) \<Rightarrow>
        pending_requests c2 (req_id req) \<noteq> None \<and>
        (req_id req \<notin> req_id ` set (ws_jsonrpc_cache c) \<longrightarrow>
           pending_requests c2 (req_id req) = Some future)"
  proof -
    obtain out evs' c2 where r: "websocket_message Closed accepted evs c1 = (out, evs', c2)"
      by (cases "websocket_message Closed accepted evs c1")
    have "pending_requests c2 (req_id req) = Some future"
      if "req_id req \<notin> req_id ` set (ws_jsonrpc_cache c)"
      using transport_loss_other [OF r, of "req_id req"] that ledger entry
      by simp
    with websocket_message_keeps [OF r there] r show ?thesis
      by (simp del: websocket_message.simps)
  qed
  have "disconnect_issued (disconnect c1)"
    by (simp add: disconnect_def logging_def Let_def split: option.splits)
  then have closed: "websocket_message Closed accepted evs (disconnect c1) =
      (Returned (), evs, logging WARN ''Websocket server disconnected!'' [] (disconnect c1))"
    by (simp add: Let_def logging_def)
  from entry fresh answered lost
  show "case send req c of
        (future, c1) \<Rightarrow>
          pending_requests c1 = (pending_requests c)(req_id req \<mapsto> future) \<and>
          future_state c1 future = Pending \<and>
          future_state (process_json_rpc_message msg (req_id req) c1) future
            = Done (reply_value msg) \<and>
          pending_requests (process_json_rpc_message msg (req_id req) c1) (req_id req)
            = Some future \<and>
          pending_requests (disconnect c1) (req_id req) = Some future \<and>
          (case websocket_message Closed accepted evs c1 of
             (out, evs', c2) \<Rightarrow>
               pending_requests c2 (req_id req) \<noteq> None \<and>
               (req_id req \<notin> req_id ` set (ws_jsonrpc_cache c) \<longrightarrow>
                  pending_requests c2 (req_id req) = Some future)) \<and>
          (case websocket_message Closed accepted evs (disconnect c1) of
             (out, evs', c2) \<Rightarrow> pending_requests c2 (req_id req) = Some future)"
    by (simp add: sent closed process_json_rpc_message_pending disconnect_pending
          logging_pending del: websocket_message.simps)
next
  assume "pending_requests c k \<noteq> None"
  show "pending_requests (process_json_rpc_message msg msg_id c) k = pending_requests c k"
    by (simp add: process_json_rpc_message_pending)
next
  assume "pending_requests c k \<noteq> None"
  show "pending_requests (disconnect c) k = pending_requests c k"
    by (simp add: disconnect_pending)
next
  assume "pending_requests c k \<noteq> None"
  then show "pending_requests (snd (send req c)) k \<noteq> None"
    by (rule send_keeps)
next
  assume there: "pending_requests c k \<noteq> None"
  obtain out evs' c' where r: "websocket_message fr accepted evs c = (out, evs', c')"
    by (cases "websocket_message fr accepted evs c")
  from websocket_message_keeps [OF r there] r
  show "case websocket_message fr accepted evs c of
      (out, evs', c') \<Rightarrow> pending_requests c' k \<noteq> None"
    by (simp del: websocket_message.simps)
next
  assume there: "pending_requests c k \<noteq> None"
  obtain out evs' c' where r: "connect' False accepted evs c = (out, evs', c')"
    by (cases "connect' False accepted evs c")
  from connect'_keeps [OF r there] r
  show "case connect accepted evs c of (out, evs', c') \<Rightarrow> pending_requests c' k \<noteq> None"
    by (simp add: connect_def)
next
  assume there: "pending_requests c k \<noteq> None"
  obtain out evs' c' where r: "send_and_cache req evs c = (out, evs', c')"
    by (cases "send_and_cache req evs c")
  from send_and_cache_keeps [OF r there] r
  show "case send_and_cache req evs c of (out, evs', c') \<Rightarrow> pending_requests c' k \<noteq> None"
    by simp
qed

theorem pending_operation_is_kept_witness:
  "is_connected subscribed \<and>
   pending_requests subscribed ''a1'' \<noteq> None \<and>
   pending_requests
     (snd (send (JSONRPCRequest ''id1'' ''add'' [JNum 1, JNum 2]) subscribed)) ''id1''
     = Some 3 \<and>
   future_state
     (process_json_rpc_message [(''id'', JStr ''id1''), (''result'', JNum 3)] ''id1''
        (snd (send (JSONRPCRequest ''id1'' ''add'' [JNum 1, JNum 2]) subscribed))) 3
     = Done (JNum 3) \<and>
   pending_requests
     (process_json_rpc_message [(''id'', JStr ''id1''), (''result'', JNum 3)] ''id1''
        (snd (send (JSONRPCRequest ''id1'' ''add'' [JNum 1, JNum 2]) subscribed))) ''id1''
     = Some 3 \<and>
   ''id1'' \<notin> req_id ` set (ws_jsonrpc_cache subscribed) \<and>
   pending_requests
     (snd (snd (websocket_message Closed True []
        (snd (send (JSONRPCRequest ''id1'' ''add'' [JNum 1, JNum 2]) subscribed))))) ''id1''
     = Some 3 \<and>
   pending_requests (snd (snd (websocket_message Closed True [] subscribed))) ''a1'' \<noteq> None"
proof -
  let ?req = "JSONRPCRequest ''id1'' ''add'' [JNum 1, JNum 2]"
  let ?msg = "[(''id'', JStr ''id1''), (''result'', JNum 3)]"
  have on: "is_connected subscribed"
    by (simp add: is_connected_def subscribed_eval)
  have old: "pending_requests subscribed ''a1'' \<noteq> None"
    by (simp add: subscribed_def subscribed_a_def subscribed_b_def connected_client_def
          ok_reply_def run_defs Let_def)
  have f: "fst (send ?req subscribed) = 3"
    by (simp add: subscribed_def subscribed_a_def subscribed_b_def connected_client_def
          ok_reply_def run_defs Let_def)
  have i: "req_id ?req = ''id1''"
    by (simp add: JSONRPCRequest_def)
  have v: "reply_value ?msg = JNum 3"
    by (simp add: reply_value_def dict_get_def)
  have new: "''id1'' \<notin> req_id ` set (ws_jsonrpc_cache subscribed)"
    by (simp add: subscribed_eval req_a_def req_b_def req_c_def JSONRPCRequest_def)
  from pending_operation_is_kept [where c = subscribed and req = ?req and msg = ?msg
      and k = "''a1''" and accepted = True and evs = "[]" and fr = Closed] on old f i v new
  show ?thesis
    by (simp add: case_prod_unfold del: websocket_message.simps)
qed

text \<open>
  The claim as stated fails: after the matching response, after \<open>disconnect\<close>, and after
  the loss of the transport, the entry made for the request is still in the map of pending
  requests.
\<close>

theorem pending_operation_removed_counterexample:
  "pending_requests
     (process_json_rpc_message [(''id'', JStr ''id1''), (''result'', JNum 3)] ''id1''
        (snd (send (JSONRPCRequest ''id1'' ''add'' [JNum 1, JNum 2])
           (snd (snd (connect True [] (init True))))))) ''id1'' = Some 0 \<and>
   pending_requests
     (disconnect
        (snd (send (JSONRPCRequest ''id1'' ''add'' [JNum 1, JNum 2])
           (snd (snd (connect True [] (init True))))))) ''id1'' = Some 0 \<and>
   pending_requests
     (snd (snd (websocket_message Closed False []
        (snd (send (JSONRPCRequest ''id1'' ''add'' [JNum 1, JNum 2])
           (snd (snd (connect True [] (init True))))))))) ''id1'' = Some 0 \<and>
   pending_requests
     (snd (snd (websocket_message Closed True []
        (snd (send (JSONRPCRequest ''id1'' ''add'' [JNum 1, JNum 2])
           (snd (snd (connect True [] (init True))))))))) ''id1'' = Some 0"
  by (simp add: connect_def connect'_def after_connect_def connect_done_def connect_failed_def
        is_connected_def init_def resend_subscriptions_and_strategies_def
        logging_def send_def JSONRPCRequest_def process_json_rpc_message_def set_result_def
        dict_get_def disconnect_def Let_def)


section \<open>The ledgers that the calls build\<close>

lemma strategy_matches_total:
  assumes "2 \<le> length (params new)"
  shows "\<forall>r\<in>set cache. 2 \<le> length (params r) \<Longrightarrow> \<exists>ms. strategy_matches new cache = Inr ms"
proof (induction cache)
  case Nil
  show ?case by simp
next
  case (Cons r rs)
  then obtain ms where "strategy_matches new rs = Inr ms"
    by auto
  moreover from Cons.prems have "2 \<le> length (params r)"
    by simp
  ultimately show ?case
    using assms by (auto simp: index_def)
qed

lemma api_request_recorded:
  assumes "api_request r" and "\<forall>x\<in>set cache. 2 \<le> length (params x)"
  shows "\<exists>cache'. cache_jsonrpc_request r cache = Inr cache'"
proof (cases "method' r = ''subscribe'' \<or> method' r = ''unsubscribe''")
  case True
  then show ?thesis
    using other_call_result [OF subscribe_is_other_call, of r cache]
      unsubscribe_result [of r cache]
    by auto
next
  case False
  with assms(1) have m: "method' r = ''set_sampling_strategy'' \<or>
      method' r = ''set_sampling_strategies''"
    and n: "length (params r) = 4"
    by (auto simp: api_request_def)
  from m have strat: "startswith (method' r) ''set_sampling_strat''"
    and other: "method' r \<noteq> ''unsubscribe''"
    by (auto simp: startswith_def)
  from n have "2 \<le> length (params r)"
    by simp
  from strategy_matches_total [OF this assms(2)]
  obtain ms where ms: "strategy_matches r cache = Inr ms" ..
  from strategy_matches_filter [OF ms]
  have "remove_requests ms cache = Inr (filter (\<lambda>x. \<not> same_sensor r x) cache)"
    by (simp add: remove_requests_filter_all)
  with ms strat other n show ?thesis
    by (simp add: cache_jsonrpc_request_def index_def)
qed

lemma api_ledger_params:
  "api_ledger cache \<Longrightarrow> \<forall>r\<in>set cache. 2 \<le> length (params r)"
proof (induction rule: api_ledger.induct)
  case new_ledger
  show ?case by simp
next
  case (call_recorded cache r cache')
  from call_recorded.hyps(2) have "2 \<le> length (params r)"
    by (auto simp: api_request_def)
  with cache_jsonrpc_request_cases [OF call_recorded.hyps(3)] call_recorded.IH
  show ?case
    by auto
qed

lemma api_ledger_recorded:
  assumes "api_ledger cache" and "api_request r"
  shows "\<exists>cache'. cache_jsonrpc_request r cache = Inr cache' \<and> api_ledger cache'"
proof -
  from api_request_recorded [OF assms(2) api_ledger_params [OF assms(1)]]
  obtain cache' where "cache_jsonrpc_request r cache = Inr cache'" ..
  with assms show ?thesis
    by (auto intro: api_ledger.call_recorded)
qed

lemma api_requests:
  "api_request (JSONRPCRequest i ''subscribe'' [a, b])"
  "api_request (JSONRPCRequest i ''unsubscribe'' [a, b])"
  "api_request (JSONRPCRequest i ''set_sampling_strategy'' [a, b, s, p])"
  "api_request (JSONRPCRequest i ''set_sampling_strategies'' [a, b, s, p])"
  by (simp_all add: api_request_def JSONRPCRequest_def)

lemma error_reply_recorded:
  assumes on: "is_connected c"
    and err: "truthy (dict_get msg ''error'')"
    and id1: "\<not> startswith (req_id req) ''redis-pubsub''"
    and id2: "\<not> startswith (req_id req) ''redis-reconnect''"
  shows "case send_and_cache req ((t, Inbound (Message (req_id req) msg)) # evs) c of
        (out, evs', c') \<Rightarrow>
          evs' = evs \<and>
          (case cache_jsonrpc_request req (ws_jsonrpc_cache c) of
             Inr cache \<Rightarrow> out = Returned (dict_get msg ''error'') \<and> ws_jsonrpc_cache c' = cache
           | Inl e \<Rightarrow> out = Raised e \<and> ws_jsonrpc_cache c' = ws_jsonrpc_cache c)"
proof -
  from on obtain conn where conn: "ws c = Some conn"
    by (auto simp: is_connected_def)
  from err have v: "reply_value msg = dict_get msg ''error''"
    by (simp add: reply_value_def)
  obtain f c1 where sent: "send req c = (f, c1)"
    by (cases "send req c")
  from send_cache [of req c] sent have same: "ws_jsonrpc_cache c1 = ws_jsonrpc_cache c"
    by simp
  from send_then_reply [OF sent conn id1 id2, of t msg evs] v same show ?thesis
    by (simp add: send_and_cache_def sent reply_changes split: sum.splits)
qed

lemma error_reply_call:
  assumes on: "is_connected c"
    and err: "truthy (dict_get msg ''error'')"
    and id1: "\<not> startswith new_id ''redis-pubsub''"
    and id2: "\<not> startswith new_id ''redis-reconnect''"
    and rec: "cache_jsonrpc_request (JSONRPCRequest new_id m ps) (ws_jsonrpc_cache c) = Inr cache"
  shows "\<exists>c'. send_and_cache (JSONRPCRequest new_id m ps)
                ((t, Inbound (Message new_id msg)) # evs) c
              = (Returned (dict_get msg ''error''), evs, c') \<and>
              ws_jsonrpc_cache c' = cache"
proof -
  let ?r = "JSONRPCRequest new_id m ps"
  have i: "req_id ?r = new_id"
    by (simp add: JSONRPCRequest_def)
  obtain out evs' c' where
    r: "send_and_cache ?r ((t, Inbound (Message new_id msg)) # evs) c = (out, evs', c')"
    by (cases "send_and_cache ?r ((t, Inbound (Message new_id msg)) # evs) c")
  from error_reply_recorded [OF on err, where req = ?r and t = t and evs = evs] id1 id2 rec r
  have "out = Returned (dict_get msg ''error'') \<and> evs' = evs \<and> ws_jsonrpc_cache c' = cache"
    by (simp add: i)
  with r show ?thesis
    by simp
qed

text \<open>
  Claim C9. When a response whose \<open>error\<close> member is present (a true value, as the code
  tests it) arrives for a pending request, the pending future is resolved with
  \<open>set_result\<close>, the error payload being the result; it is not failed with an exception. So
  a call that sends a request and records it in the ledger (\<open>subscribe\<close>, \<open>unsubscribe\<close>,
  \<open>set_sampling_strategy\<close>, \<open>set_sampling_strategies\<close> are \<open>send_and_cache\<close> of their
  request) returns the error payload as its value when the server answers with an error, and
  the request is applied to the ledger as \<open>_cache_jsonrpc_request\<close> applies it. For
  \<open>subscribe\<close> and \<open>unsubscribe\<close> that holds whatever the ledger contains. For the two
  strategy calls it holds on every ledger that the four calls can have built from the empty
  list of the constructor and of \<open>disconnect\<close> (nothing else writes the ledger), and each of
  the four calls leaves such a ledger again.
\<close>

theorem error_reply_is_a_result:
  assumes "is_connected c"
    and "truthy (dict_get msg ''error'')"
    and "\<not> startswith (req_id req) ''redis-pubsub''"
    and "\<not> startswith (req_id req) ''redis-reconnect''"
    and "\<not> startswith new_id ''redis-pubsub''"
    and "\<not> startswith new_id ''redis-reconnect''"
  shows
    "(case send req c of
        (future, c1) \<Rightarrow>
          future_state (process_json_rpc_message msg (req_id req) c1) future
            = Done (dict_get msg ''error'')) \<and>
     (case send_and_cache req ((t, Inbound (Message (req_id req) msg)) # evs) c of
        (out, evs', c') \<Rightarrow>
          evs' = evs \<and>
          (case cache_jsonrpc_request req (ws_jsonrpc_cache c) of
             Inr cache \<Rightarrow> out = Returned (dict_get msg ''error'') \<and> ws_jsonrpc_cache c' = cache
           | Inl e \<Rightarrow> out = Raised e \<and> ws_jsonrpc_cache c' = ws_jsonrpc_cache c)) \<and>
     (case subscribe new_id namespace sub_strings
             ((t, Inbound (Message new_id msg)) # evs) c of
        (out, evs', c') \<Rightarrow>
          out = Returned (dict_get msg ''error'') \<and> evs' = evs \<and>
          cache_jsonrpc_request (JSONRPCRequest new_id ''subscribe'' [namespace, sub_strings])
            (ws_jsonrpc_cache c) = Inr (ws_jsonrpc_cache c')) \<and>
     (case unsubscribe new_id namespace unsub_strings
             ((t, Inbound (Message new_id msg)) # evs) c of
        (out, evs', c') \<Rightarrow>
          out = Returned (dict_get msg ''error'') \<and> evs' = evs \<and>
          cache_jsonrpc_request (JSONRPCRequest new_id ''unsubscribe'' [namespace, unsub_strings])
            (ws_jsonrpc_cache c) = Inr (ws_jsonrpc_cache c')) \<and>
     (api_ledger (ws_jsonrpc_cache c) \<longrightarrow>
        (case set_sampling_strategy new_id namespace sensor_name strategy_and_params
                persist_to_redis ((t, Inbound (Message new_id msg)) # evs) c of
           (out, evs', c') \<Rightarrow>
             out = Returned (dict_get msg ''error'') \<and> evs' = evs \<and>
             cache_jsonrpc_request
               (JSONRPCRequest new_id ''set_sampling_strategy''
                  [namespace, sensor_name, strategy_and_params, persist_to_redis])
               (ws_jsonrpc_cache c) = Inr (ws_jsonrpc_cache c') \<and>
             api_ledger (ws_jsonrpc_cache c')) \<and>
        (case set_sampling_strategies new_id namespace filters strategy_and_params
                persist_to_redis ((t, Inbound (Message new_id msg)) # evs) c of
           (out, evs', c') \<Rightarrow>
             out = Returned (dict_get msg ''error'') \<and> evs' = evs \<and>
             cache_jsonrpc_request
               (JSONRPCRequest new_id ''set_sampling_strategies''
                  [namespace, filters, strategy_and_params, persist_to_redis])
               (ws_jsonrpc_cache c) = Inr (ws_jsonrpc_cache c') \<and>
             api_ledger (ws_jsonrpc_cache c')) \<and>
        (case subscribe new_id namespace sub_strings
                ((t, Inbound (Message new_id msg)) # evs) c of
           (out, evs', c') \<Rightarrow> api_ledger (ws_jsonrpc_cache c')) \<and>
        (case unsubscribe new_id namespace unsub_strings
                ((t, Inbound (Message new_id msg)) # evs) c of
           (out, evs', c') \<Rightarrow> api_ledger (ws_jsonrpc_cache c')))"
proof -
  from assms(2) have v: "reply_value msg = dict_get msg ''error''"
    by (simp add: reply_value_def)
  have first: "case send req c of
        (future, c1) \<Rightarrow>
          future_state (process_json_rpc_message msg (req_id req) c1) future
            = Done (dict_get msg ''error'')"
    using send_connected_reply [OF assms(1), of msg req] v
    by (simp add: case_prod_unfold)
  note second = error_reply_recorded [OF assms(1,2,3,4), where t = t and evs = evs]
  note call = error_reply_call [OF assms(1,2,5,6), where t = t and evs = evs]
  let ?sub = "JSONRPCRequest new_id ''subscribe'' [namespace, sub_strings]"
  let ?unsub = "JSONRPCRequest new_id ''unsubscribe'' [namespace, unsub_strings]"
  let ?one = "JSONRPCRequest new_id ''set_sampling_strategy''
                  [namespace, sensor_name, strategy_and_params, persist_to_redis]"
  let ?many = "JSONRPCRequest new_id ''set_sampling_strategies''
                  [namespace, filters, strategy_and_params, persist_to_redis]"
  have "method' ?sub = ''subscribe''"
    by (simp add: JSONRPCRequest_def)
  from other_call_result [OF subscribe_is_other_call [OF this], of "ws_jsonrpc_cache c"]
  obtain cache1 where sub: "cache_jsonrpc_request ?sub (ws_jsonrpc_cache c) = Inr cache1"
    by simp
  have "method' ?unsub = ''unsubscribe''"
    by (simp add: JSONRPCRequest_def)
  from unsubscribe_result [OF this, of "ws_jsonrpc_cache c"]
  obtain cache2 where unsub: "cache_jsonrpc_request ?unsub (ws_jsonrpc_cache c) = Inr cache2"
    by simp
  have third: "case subscribe new_id namespace sub_strings
             ((t, Inbound (Message new_id msg)) # evs) c of
        (out, evs', c') \<Rightarrow>
          out = Returned (dict_get msg ''error'') \<and> evs' = evs \<and>
          cache_jsonrpc_request ?sub (ws_jsonrpc_cache c) = Inr (ws_jsonrpc_cache c')"
    using call [OF sub] sub
    by (auto simp: subscribe_def)
  have fourth: "case unsubscribe new_id namespace unsub_strings
             ((t, Inbound (Message new_id msg)) # evs) c of
        (out, evs', c') \<Rightarrow>
          out = Returned (dict_get msg ''error'') \<and> evs' = evs \<and>
          cache_jsonrpc_request ?unsub (ws_jsonrpc_cache c) = Inr (ws_jsonrpc_cache c')"
    using call [OF unsub] unsub
    by (auto simp: unsubscribe_def)
  have fifth: "(case set_sampling_strategy new_id namespace sensor_name strategy_and_params
                persist_to_redis ((t, Inbound (Message new_id msg)) # evs) c of
           (out, evs', c') \<Rightarrow>
             out = Returned (dict_get msg ''error'') \<and> evs' = evs \<and>
             cache_jsonrpc_request ?one (ws_jsonrpc_cache c) = Inr (ws_jsonrpc_cache c') \<and>
             api_ledger (ws_jsonrpc_cache c')) \<and>
        (case set_sampling_strategies new_id namespace filters strategy_and_params
                persist_to_redis ((t, Inbound (Message new_id msg)) # evs) c of
           (out, evs', c') \<Rightarrow>
             out = Returned (dict_get msg ''error'') \<and> evs' = evs \<and>
             cache_jsonrpc_request ?many (ws_jsonrpc_cache c) = Inr (ws_jsonrpc_cache c') \<and>
             api_ledger (ws_jsonrpc_cache c')) \<and>
        (case subscribe new_id namespace sub_strings
                ((t, Inbound (Message new_id msg)) # evs) c of
           (out, evs', c') \<Rightarrow> api_ledger (ws_jsonrpc_cache c')) \<and>
        (case unsubscribe new_id namespace unsub_strings
                ((t, Inbound (Message new_id msg)) # evs) c of
           (out, evs', c') \<Rightarrow> api_ledger (ws_jsonrpc_cache c'))"
    if built: "api_ledger (ws_jsonrpc_cache c)"
  proof -
    from api_ledger_recorded [OF built api_requests(3)]
    obtain cache3 where one: "cache_jsonrpc_request ?one (ws_jsonrpc_cache c) = Inr cache3"
      and built3: "api_ledger cache3"
      by blast
    from api_ledger_recorded [OF built api_requests(4)]
    obtain cache4 where many: "cache_jsonrpc_request ?many (ws_jsonrpc_cache c) = Inr cache4"
      and built4: "api_ledger cache4"
      by blast
    from api_ledger.call_recorded [OF built api_requests(1) sub]
    have built1: "api_ledger cache1" .
    from api_ledger.call_recorded [OF built api_requests(2) unsub]
    have built2: "api_ledger cache2" .
    have a: "case set_sampling_strategy new_id namespace sensor_name strategy_and_params
                persist_to_redis ((t, Inbound (Message new_id msg)) # evs) c of
           (out, evs', c') \<Rightarrow>
             out = Returned (dict_get msg ''error'') \<and> evs' = evs \<and>
             cache_jsonrpc_request ?one (ws_jsonrpc_cache c) = Inr (ws_jsonrpc_cache c') \<and>
             api_ledger (ws_jsonrpc_cache c')"
      using call [OF one] one built3
      by (auto simp: set_sampling_strategy_def)
    have b: "case set_sampling_strategies new_id namespace filters strategy_and_params
                persist_to_redis ((t, Inbound (Message new_id msg)) # evs) c of
           (out, evs', c') \<Rightarrow>
             out = Returned (dict_get msg ''error'') \<and> evs' = evs \<and>
             cache_jsonrpc_request ?many (ws_jsonrpc_cache c) = Inr (ws_jsonrpc_cache c') \<and>
             api_ledger (ws_jsonrpc_cache c')"
      using call [OF many] many built4
      by (auto simp: set_sampling_strategies_def)
    have c: "case subscribe new_id namespace sub_strings
                ((t, Inbound (Message new_id msg)) # evs) c of
           (out, evs', c') \<Rightarrow> api_ledger (ws_jsonrpc_cache c')"
      using call [OF sub] built1
      by (auto simp: subscribe_def)
    have d: "case unsubscribe new_id namespace unsub_strings
                ((t, Inbound (Message new_id msg)) # evs) c of
           (out, evs', c') \<Rightarrow> api_ledger (ws_jsonrpc_cache c')"
      using call [OF unsub] built2
      by (auto simp: unsubscribe_def)
    from a b c d show ?thesis
      by (intro conjI)
  qed
  show ?thesis
    by (intro conjI impI first second third fourth fifth)
qed


theorem error_reply_is_a_result_witness:
  "is_connected subscribed \<and>
   truthy (dict_get (error_reply ''d4'') ''error'') \<and>
   api_ledger (ws_jsonrpc_cache subscribed) \<and>
   ws_jsonrpc_cache subscribed = [req_a, req_b, req_c] \<and>
   fst (set_sampling_strategy ''d4'' (JStr ''ns'') (JStr ''m063_ap_mode'') (JStr ''none'')
          (JBool False) [(4, Inbound (Message ''d4'' (error_reply ''d4'')))] subscribed)
     = Returned (JDict [(''code'', JNum (- 32000)), (''message'', JStr ''no such sensor'')]) \<and>
   ws_jsonrpc_cache (snd (snd
       (set_sampling_strategy ''d4'' (JStr ''ns'') (JStr ''m063_ap_mode'') (JStr ''none'')
          (JBool False) [(4, Inbound (Message ''d4'' (error_reply ''d4'')))] subscribed)))
     = [req_a, req_c] \<and>
   fst (unsubscribe ''d4'' (JStr ''ns'') (JStr ''m063_ap_mode'')
          [(4, Inbound (Message ''d4'' (error_reply ''d4'')))] subscribed)
     = Returned (JDict [(''code'', JNum (- 32000)), (''message'', JStr ''no such sensor'')]) \<and>
   ws_jsonrpc_cache (snd (snd
       (unsubscribe ''d4'' (JStr ''ns'') (JStr ''m063_ap_mode'')
          [(4, Inbound (Message ''d4'' (error_reply ''d4'')))] subscribed)))
     = [req_b, req_c] \<and>
   fst (subscribe ''d4'' (JStr ''ns'') (JStr ''other'')
          [(4, Inbound (Message ''d4'' (error_reply ''d4'')))] subscribed)
     = Returned (JDict [(''code'', JNum (- 32000)), (''message'', JStr ''no such sensor'')]) \<and>
   ws_jsonrpc_cache (snd (snd
       (subscribe ''d4'' (JStr ''ns'') (JStr ''other'')
          [(4, Inbound (Message ''d4'' (error_reply ''d4'')))] subscribed)))
     = [req_a, req_b, req_c, JSONRPCRequest ''d4'' ''subscribe'' [JStr ''ns'', JStr ''other'']]"
proof -
  let ?clear = "JSONRPCRequest ''d4'' ''set_sampling_strategy''
      [JStr ''ns'', JStr ''m063_ap_mode'', JStr ''none'', JBool False]"
  let ?unsub = "JSONRPCRequest ''d4'' ''unsubscribe'' [JStr ''ns'', JStr ''m063_ap_mode'']"
  let ?sub = "JSONRPCRequest ''d4'' ''subscribe'' [JStr ''ns'', JStr ''other'']"
  have on: "is_connected subscribed"
    by (simp add: is_connected_def subscribed_eval)
  have err: "dict_get (error_reply ''d4'') ''error'' =
      JDict [(''code'', JNum (- 32000)), (''message'', JStr ''no such sensor'')]"
    by (simp add: error_reply_def dict_get_def)
  then have tr: "truthy (dict_get (error_reply ''d4'') ''error'')"
    by simp
  have ids: "\<not> startswith (req_id req_a) ''redis-pubsub''"
    "\<not> startswith (req_id req_a) ''redis-reconnect''"
    "\<not> startswith ''d4'' ''redis-pubsub''" "\<not> startswith ''d4'' ''redis-reconnect''"
    by (simp_all add: startswith_def req_a_def JSONRPCRequest_def)
  have reqs: "api_request req_a" "api_request req_b" "api_request req_c"
    by (simp_all add: req_a_def req_b_def req_c_def api_requests)
  have steps: "cache_jsonrpc_request req_a [] = Inr [req_a]"
    "cache_jsonrpc_request req_b [req_a] = Inr [req_a, req_b]"
    "cache_jsonrpc_request req_c [req_a, req_b] = Inr [req_a, req_b, req_c]"
    by (simp_all add: cache_jsonrpc_request_def req_a_def req_b_def req_c_def JSONRPCRequest_def
          startswith_def index_def method_and_params_hash_def)
  from api_ledger.call_recorded [OF api_ledger.new_ledger reqs(1) steps(1)]
  have "api_ledger [req_a]" .
  from api_ledger.call_recorded [OF this reqs(2) steps(2)]
  have "api_ledger [req_a, req_b]" .
  from api_ledger.call_recorded [OF this reqs(3) steps(3)]
  have built: "api_ledger (ws_jsonrpc_cache subscribed)"
    by (simp add: subscribed_eval)
  have after: "cache_jsonrpc_request ?clear [req_a, req_b, req_c] = Inr [req_a, req_c]"
    "cache_jsonrpc_request ?unsub [req_a, req_b, req_c] = Inr [req_b, req_c]"
    "cache_jsonrpc_request ?sub [req_a, req_b, req_c] = Inr [req_a, req_b, req_c, ?sub]"
    by (simp_all add: cache_jsonrpc_request_def req_a_def req_b_def req_c_def JSONRPCRequest_def
          startswith_def index_def method_and_params_hash_def list_remove_def)
  from error_reply_is_a_result [OF on tr ids, where t = 4 and evs = "[]"
      and namespace = "JStr ''ns''" and sub_strings = "JStr ''other''"
      and unsub_strings = "JStr ''m063_ap_mode''" and sensor_name = "JStr ''m063_ap_mode''"
      and strategy_and_params = "JStr ''none''" and persist_to_redis = "JBool False"
      and filters = "JStr ''m063_ap_mode''"]
    on tr err built after
  show ?thesis
    by (simp add: case_prod_unfold subscribed_eval)
qed

section \<open>The history synchroniser: completion, timeout and the sample limit\<close>

lemmas history_run_defs = sensor_history_def connect_def connect'_def after_connect_def
  connect_done_def connect_failed_def
  subscribe_def unsubscribe_def send_and_cache_def send_def JSONRPCRequest_def
  history_download_def history_complete_def is_done_def advance_def logging_def
  is_connected_def future_state_def set_result_def set_exception_def
  process_json_rpc_message_def process_redis_message_def receive_history_def receive_inform_def
  hand_to_callback_def processing_failed_def dict_get_def startswith_def
  cache_jsonrpc_request_def method_and_params_hash_def index_def list_remove_def
  history_params_def disconnect_def
  limit_warning_def not_connected_msg_def
  history_env1_def publication_def done_marker_def ok_reply_def init_def

lemmas history_defs = history_run_defs make_sample_def sample_row_def
  SAMPLE_HISTORY_REQUEST_MULTIPLIER_TO_SEC_def MAX_SAMPLES_PER_HISTORY_QUERY_def
  SAMPLE_HISTORY_CHUNK_SIZE_def

text \<open>
  Claim C1, evaluated. \<open>sensor_history\<close> is called with a timeout of 10 seconds; the portal
  accepts the download request, the subscribe is answered, one row is published, and no
  \<open>done\<close> marker arrives. The call raises the timeout error of the history request, and
  it ends there: the state of the query, with the sample received, is still in
  \<open>_sensor_history_states\<close>, the subscribe of the private namespace is still in the ledger,
  and no unsubscribe has been written. When the marker does arrive, the same call returns
  the sample, deletes the state, writes the unsubscribe and leaves the ledger empty.
\<close>

theorem history_timeout_keeps_state_and_subscription:
  "(case sensor_history history_env1 ''anc_mean_wind_speed'' 0 100 (JBool False) 10
           no_marker_events (init True) of
      (out, evs', c') \<Rightarrow>
        out = Raised (SensorHistoryRequestError ''Sensor history request timed out'') \<and>
        map_option samples (sensor_history_states c' ''hist'')
          = Some [SensorSample 2 (JStr ''5.07'') (JStr ''nominal'')] \<and>
        ws_jsonrpc_cache c'
          = [JSONRPCRequest ''h1'' ''subscribe'' [JStr ''hist'', JList [JStr ''*'']]] \<and>
        written c'
          = [(1, JSONRPCRequest ''h1'' ''subscribe'' [JStr ''hist'', JList [JStr ''*'']])]) \<and>
   (case sensor_history history_env1 ''anc_mean_wind_speed'' 0 100 (JBool False) 10
           (history_events 2 [sample_row]) (init True) of
      (out, evs', c') \<Rightarrow>
        out = Returned [SensorSample 2 (JStr ''5.07'') (JStr ''nominal'')] \<and>
        sensor_history_states c' ''hist'' = None \<and>
        ws_jsonrpc_cache c' = [] \<and>
        written c'
          = [(1, JSONRPCRequest ''h1'' ''subscribe'' [JStr ''hist'', JList [JStr ''*'']]),
             (1, JSONRPCRequest ''h2'' ''unsubscribe'' [JStr ''hist'', JList [JStr ''*'']])])"
  by (simp add: history_defs no_marker_events_def history_events_def Let_def)

text \<open>
  Claim C2, evaluated. \<open>sensors_histories\<close> is called for one sensor with
  \<open>include_value_ts = False\<close> and a budget of 5 seconds; the row is published at time 200
  and the marker at 201. The call passes the remaining budget as the fourth positional
  argument of \<open>sensor_history\<close>, which is \<open>include_value_ts\<close>, and the timeout keeps its
  default of 300: the call does not time out, it returns at time 202, and the sample carries
  the value timestamp. \<open>sensor_history\<close> called with the flag \<open>False\<close> and a timeout of 5
  raises the timeout error on the same events.
\<close>

theorem histories_budget_is_passed_as_flag:
  "(case sensors_histories (Inr [(''anc_mean_wind_speed'', history_env1)]) 0 100 (JBool False) 5
           (history_events 200 [sample_row]) (init True) of
      (out, evs', c') \<Rightarrow>
        (case out of
           Returned histories \<Rightarrow>
             histories ''anc_mean_wind_speed''
               = Some [SensorSampleValueTs 2 1 (JStr ''5.07'') (JStr ''nominal'')]
         | _ \<Rightarrow> False) \<and>
        now c' = 202) \<and>
   fst (sensor_history history_env1 ''anc_mean_wind_speed'' 0 100 (JBool False) 5
          (history_events 200 [sample_row]) (init True))
     = Raised (SensorHistoryRequestError ''Sensor history request timed out'')"
  by (simp add: history_defs sensors_histories_def history_events_def Let_def)

lemma send_and_cache_warnings:
  assumes "send_and_cache req evs c = (out, evs', c')"
  shows "count_list (logger c') limit_warning = count_list (logger c) limit_warning"
proof -
  obtain f c1 where sent: "send req c = (f, c1)"
    by (cases "send req c")
  obtain o2 later c2 where waited: "await_future f evs c1 = (o2, later, c2)"
    by (cases "await_future f evs c1")
  from send_frame(2) [of req c] sent
  have "count_list (logger c1) limit_warning = count_list (logger c) limit_warning"
    by simp
  with await_future_frame [OF waited]
  have "count_list (logger c2) limit_warning = count_list (logger c) limit_warning"
    by simp
  with assms sent waited show ?thesis
    by (cases o2) (auto simp: send_and_cache_def split: sum.splits)
qed

lemma connect_warnings:
  assumes "connect a evs c = (out, evs', c')"
  shows "count_list (logger c') limit_warning = count_list (logger c) limit_warning"
  using assms
  by (auto simp: connect_def connect'_def after_connect_def connect_done_def connect_failed_def
        logging_frame Let_def split: if_splits)

lemma wait_done_warnings:
  "wait_done namespace deadline evs c = (out, evs', c') \<Longrightarrow>
   count_list (logger c') limit_warning = count_list (logger c) limit_warning"
proof (induction namespace deadline evs c rule: wait_done.induct)
  case (1 namespace deadline c)
  then show ?case
    by (auto simp: advance_def split: if_splits)
next
  case (2 namespace deadline t ev evs c)
  show ?case
  proof (cases "\<not> is_done namespace c \<and> t < deadline")
    case False
    with "2.prems" show ?thesis
      by (auto simp: advance_def split: if_splits)
  next
    case True
    then have waiting: "\<not> is_done namespace c" and early: "t < deadline"
      by simp_all
    show ?thesis
    proof (cases "deliver ev (advance t c)")
      case None
      with True "2.prems" show ?thesis
        by (auto simp: advance_def)
    next
      case (Some c1)
      from deliver_frame(2) [OF Some]
      have "count_list (logger c1) limit_warning = count_list (logger c) limit_warning"
        by (simp add: advance_def)
      moreover from True Some "2.prems"
      have "wait_done namespace deadline evs c1 = (out, evs', c')"
        by simp
      from "2.IH" [OF waiting early Some this]
      have "count_list (logger c') limit_warning = count_list (logger c1) limit_warning" .
      ultimately show ?thesis by simp
    qed
  qed
qed

lemma history_complete_result:
  assumes "history_complete env evs c = (Returned result, evs', c')"
  shows "result = sort_key timestamp
           (case sensor_history_states c (new_namespace env) of
              None \<Rightarrow> [] | Some state \<Rightarrow> samples state)"
    and "count_list (logger c') limit_warning =
         count_list (logger c) limit_warning +
           (if MAX_SAMPLES_PER_HISTORY_QUERY \<le> length result then 1 else 0)"
proof -
  let ?result = "sort_key timestamp
           (case sensor_history_states c (new_namespace env) of
              None \<Rightarrow> [] | Some state \<Rightarrow> samples state)"
  let ?c = "if length ?result \<ge> MAX_SAMPLES_PER_HISTORY_QUERY
            then c\<lparr>logger := logger c @ [limit_warning]\<rparr> else c"
  obtain o2 evs2 c2 where
    u: "unsubscribe (unsubscribe_id env) (JStr (new_namespace env)) (JList [JStr ''*'']) evs ?c
        = (o2, evs2, c2)"
    by (cases "unsubscribe (unsubscribe_id env) (JStr (new_namespace env)) (JList [JStr ''*''])
                 evs ?c")
  from u have "send_and_cache
      (JSONRPCRequest (unsubscribe_id env) ''unsubscribe''
         [JStr (new_namespace env), JList [JStr ''*'']]) evs ?c = (o2, evs2, c2)"
    unfolding unsubscribe_def .
  from send_and_cache_warnings [OF this]
  have "count_list (logger c2) limit_warning = count_list (logger ?c) limit_warning" .
  then have w: "count_list (logger c2) limit_warning =
      count_list (logger c) limit_warning +
        (if MAX_SAMPLES_PER_HISTORY_QUERY \<le> length ?result then 1 else 0)"
    by (simp add: count_list_snoc)
  from assms u have r: "result = ?result"
    and c': "c' = c2\<lparr>sensor_history_states :=
                (sensor_history_states c2)(new_namespace env := None)\<rparr>"
    by (cases o2; simp add: history_complete_def Let_def)+
  from r show "result = ?result" .
  from w r c' show "count_list (logger c') limit_warning =
         count_list (logger c) limit_warning +
           (if MAX_SAMPLES_PER_HISTORY_QUERY \<le> length result then 1 else 0)"
    by simp
qed

lemma history_download_warnings:
  assumes "history_download env sensor_name start_time_sec end_time_sec timeout_sec evs c
           = (Returned result, evs', c')"
  shows "count_list (logger c') limit_warning =
         count_list (logger c) limit_warning +
           (if MAX_SAMPLES_PER_HISTORY_QUERY \<le> length result then 1 else 0) \<and>
         sorted (map timestamp result)"
proof -
  define c1 where "c1 = logging DEBUG ''Sensor history request: %s'' []
                (c\<lparr>fetched := fetched c @
                   [history_params sensor_name (new_namespace env) start_time_sec
                      end_time_sec]\<rparr>)"
  have w1: "count_list (logger c1) limit_warning = count_list (logger c) limit_warning"
    by (simp add: c1_def logging_frame)
  obtain o2 evs2 c2 where
    waited: "wait_done (new_namespace env) (now c1 + timeout_sec) evs c1 = (o2, evs2, c2)"
    by (cases "wait_done (new_namespace env) (now c1 + timeout_sec) evs c1")
  from wait_done_warnings [OF waited] w1
  have w2: "count_list (logger c2) limit_warning = count_list (logger c) limit_warning"
    by simp
  let ?c3 = "logging DEBUG ''Done in %d seconds, fetched %s samples.'' [] c2"
  from w2 have w3: "count_list (logger ?c3) limit_warning = count_list (logger c) limit_warning"
    by (simp add: logging_frame)
  from assms have "history_complete env evs2 ?c3 = (Returned result, evs', c')"
    unfolding history_download_def Let_def c1_def [symmetric]
    using waited
    by (auto split: http_reply.splits option.splits json.splits if_splits outcome.splits)
  from history_complete_result [OF this] w3 show ?thesis
    by simp
qed

lemma sensor_history_warnings:
  assumes "sensor_history env sensor_name start_time_sec end_time_sec flag timeout_sec evs c
           = (Returned result, evs', c')"
  shows "count_list (logger c') limit_warning =
         count_list (logger c) limit_warning +
           (if MAX_SAMPLES_PER_HISTORY_QUERY \<le> length result then 1 else 0) \<and>
         sorted (map timestamp result)"
proof -
  define c0 where "c0 = c\<lparr>sensor_history_states := (sensor_history_states c)(new_namespace env \<mapsto>
      \<lparr>sensor = sensor_name, done_event = False, num_samples_pending = 0,
       include_value_ts = flag, samples = []\<rparr>)\<rparr>"
  have w0: "count_list (logger c0) limit_warning = count_list (logger c) limit_warning"
    by (simp add: c0_def)
  obtain o1 evs1 c1 where conn: "connect (accepts env) evs c0 = (o1, evs1, c1)"
    by (cases "connect (accepts env) evs c0")
  obtain o2 evs2 c2 where
    sub: "subscribe (subscribe_id env) (JStr (new_namespace env)) (JList [JStr ''*'']) evs1 c1
          = (o2, evs2, c2)"
    by (cases "subscribe (subscribe_id env) (JStr (new_namespace env)) (JList [JStr ''*''])
                 evs1 c1")
  from connect_warnings [OF conn] w0
  have w1: "count_list (logger c1) limit_warning = count_list (logger c) limit_warning"
    by simp
  from sub have "send_and_cache
      (JSONRPCRequest (subscribe_id env) ''subscribe''
         [JStr (new_namespace env), JList [JStr ''*'']]) evs1 c1 = (o2, evs2, c2)"
    unfolding subscribe_def .
  from send_and_cache_warnings [OF this]
  have "count_list (logger c2) limit_warning = count_list (logger c1) limit_warning" .
  with w1 have w2: "count_list (logger c2) limit_warning = count_list (logger c) limit_warning"
    by simp
  from assms have "history_download env sensor_name start_time_sec end_time_sec timeout_sec
      evs2 c2 = (Returned result, evs', c')"
    unfolding sensor_history_def Let_def c0_def [symmetric]
    using conn sub
    by (auto split: outcome.splits)
  from history_download_warnings [OF this] w2 show ?thesis
    by simp
qed

lemma receive_rows_replicate:
  "read_row b row = Inr (Some s) \<Longrightarrow>
   receive_rows b (replicate n row) acc k = (None, acc @ replicate n s, k + n)"
  by (induction n arbitrary: acc k) (simp_all add: replicate_app_Cons_same)

lemma insort_key_replicate:
  "insort_key f x (replicate n x) = x # replicate n x"
  by (cases n) simp_all

lemma sort_key_replicate:
  "sort_key f (replicate n x) = replicate n x"
  by (induction n) (simp_all add: insort_key_replicate)

lemma read_sample_row:
  "read_row False sample_row = Inr (Some (SensorSample 2 (JStr ''5.07'') (JStr ''nominal'')))"
  by (simp add: sample_row_def make_sample_def SAMPLE_HISTORY_REQUEST_MULTIPLIER_TO_SEC_def)

lemma receive_sample_rows:
  "receive_rows False (replicate n sample_row) [] 0 =
     (None, replicate n (SensorSample 2 (JStr ''5.07'') (JStr ''nominal'')), n)"
  using receive_rows_replicate [OF read_sample_row, of n "[]" 0] by simp

lemma flood_returned:
  assumes "MAX_SAMPLES_PER_HISTORY_QUERY \<le> n"
  shows "fst (sensor_history history_env1 ''anc_mean_wind_speed'' 0 100 (JBool False) 10
          (history_events 2 (replicate n sample_row)) (init True))
   = Returned (replicate n (SensorSample 2 (JStr ''5.07'') (JStr ''nominal'')))"
  using assms
  by (simp add: history_run_defs history_events_def receive_sample_rows sort_key_replicate Let_def)

text \<open>
  Claim C8, as amended. A call of \<open>sensor_history\<close> that returns logs the warning of the
  sample limit once when the list it returns has at least \<open>MAX_SAMPLES_PER_HISTORY_QUERY\<close>
  samples, and not at all when it has fewer; the list is sorted by timestamp. The list is
  not cut to the limit: the end of the call returns every sample that the state of the query
  holds, sorted. The limit is a parameter of the download request.
\<close>

theorem sample_limit_is_a_warning:
  "(sensor_history env sensor_name start_time_sec end_time_sec flag timeout_sec evs c
      = (Returned result, evs', c') \<longrightarrow>
      count_list (logger c') limit_warning =
        count_list (logger c) limit_warning +
          (if MAX_SAMPLES_PER_HISTORY_QUERY \<le> length result then 1 else 0) \<and>
      sorted (map timestamp result)) \<and>
   (history_complete env evs c = (Returned result, evs', c') \<longrightarrow>
      result = sort_key timestamp
                 (case sensor_history_states c (new_namespace env) of
                    None \<Rightarrow> [] | Some state \<Rightarrow> samples state) \<and>
      length result = length (case sensor_history_states c (new_namespace env) of
                                None \<Rightarrow> [] | Some state \<Rightarrow> samples state)) \<and>
   map_of (history_params sensor_name namespace start_time_sec end_time_sec) ''limit''
     = Some (JNum (of_nat MAX_SAMPLES_PER_HISTORY_QUERY))"
proof (intro conjI impI)
  assume "sensor_history env sensor_name start_time_sec end_time_sec flag timeout_sec evs c
      = (Returned result, evs', c')"
  from sensor_history_warnings [OF this]
  show "count_list (logger c') limit_warning =
        count_list (logger c) limit_warning +
          (if MAX_SAMPLES_PER_HISTORY_QUERY \<le> length result then 1 else 0)"
    and "sorted (map timestamp result)"
    by simp_all
next
  assume "history_complete env evs c = (Returned result, evs', c')"
  then show r: "result = sort_key timestamp
                 (case sensor_history_states c (new_namespace env) of
                    None \<Rightarrow> [] | Some state \<Rightarrow> samples state)"
    by (rule history_complete_result(1))
  then show "length result = length (case sensor_history_states c (new_namespace env) of
                                None \<Rightarrow> [] | Some state \<Rightarrow> samples state)"
    by simp
next
  show "map_of (history_params sensor_name namespace start_time_sec end_time_sec) ''limit''
     = Some (JNum (of_nat MAX_SAMPLES_PER_HISTORY_QUERY))"
    by (simp add: history_params_def)
qed

theorem sample_limit_is_a_warning_witness:
  "fst (sensor_history history_env1 ''anc_mean_wind_speed'' 0 100 (JBool False) 10
          (history_events 2 [sample_row]) (init True))
     = Returned [SensorSample 2 (JStr ''5.07'') (JStr ''nominal'')] \<and>
   count_list
     (logger (snd (snd
        (sensor_history history_env1 ''anc_mean_wind_speed'' 0 100 (JBool False) 10
           (history_events 2 [sample_row]) (init True))))) limit_warning = 0 \<and>
   fst (history_complete history_env1 [(5, Inbound (Message ''h2'' (ok_reply ''h2'')))]
          downloaded)
     = Returned [SensorSample 2 (JStr ''5.07'') (JStr ''nominal''),
                 SensorSample 3 (JStr ''5.09'') (JStr ''nominal'')] \<and>
   sensor_history_states downloaded (new_namespace history_env1)
     = Some \<lparr>sensor = ''anc_mean_wind_speed'', done_event = True, num_samples_pending = 0,
              include_value_ts = JBool False,
              samples = [SensorSample 3 (JStr ''5.09'') (JStr ''nominal''),
                         SensorSample 2 (JStr ''5.07'') (JStr ''nominal'')]\<rparr>"
proof -
  let ?run = "sensor_history history_env1 ''anc_mean_wind_speed'' 0 100 (JBool False) 10
          (history_events 2 [sample_row]) (init True)"
  let ?tail = "history_complete history_env1 [(5, Inbound (Message ''h2'' (ok_reply ''h2'')))]
          downloaded"
  let ?one = "[SensorSample 2 (JStr ''5.07'') (JStr ''nominal'')]"
  let ?two = "[SensorSample 2 (JStr ''5.07'') (JStr ''nominal''),
               SensorSample 3 (JStr ''5.09'') (JStr ''nominal'')]"
  have r: "fst ?run = Returned ?one" "fst (snd ?run) = []"
    by (simp_all add: history_defs history_events_def Let_def)
  have run: "?run = (Returned ?one, [], snd (snd ?run))"
  proof (cases ?run)
    case (fields out rest c')
    with r show ?thesis by simp
  qed
  have t: "fst ?tail = Returned ?two" "fst (snd ?tail) = []"
    by (simp_all add: history_defs downloaded_def Let_def)
  have tail: "?tail = (Returned ?two, [], snd (snd ?tail))"
  proof (cases ?tail)
    case (fields out rest c')
    with t show ?thesis by simp
  qed
  have before: "count_list (logger (init True)) limit_warning = 0"
    by (simp add: init_def)
  have few: "\<not> MAX_SAMPLES_PER_HISTORY_QUERY \<le> length ?one"
    by (simp add: MAX_SAMPLES_PER_HISTORY_QUERY_def)
  have held: "sensor_history_states downloaded (new_namespace history_env1)
     = Some \<lparr>sensor = ''anc_mean_wind_speed'', done_event = True, num_samples_pending = 0,
              include_value_ts = JBool False,
              samples = [SensorSample 3 (JStr ''5.09'') (JStr ''nominal''),
                         SensorSample 2 (JStr ''5.07'') (JStr ''nominal'')]\<rparr>"
    by (simp add: downloaded_def history_env1_def init_def)
  from sample_limit_is_a_warning [where env = history_env1
      and sensor_name = "''anc_mean_wind_speed''" and start_time_sec = 0 and end_time_sec = 100
      and flag = "JBool False" and timeout_sec = 10 and evs = "history_events 2 [sample_row]"
      and c = "init True" and result = ?one and evs' = "[]" and c' = "snd (snd ?run)"]
    run before few
  have one: "count_list (logger (snd (snd ?run))) limit_warning = 0"
    by simp
  from sample_limit_is_a_warning [where env = history_env1
      and evs = "[(5, Inbound (Message ''h2'' (ok_reply ''h2'')))]"
      and c = downloaded and result = ?two and evs' = "[]" and c' = "snd (snd ?tail)"]
    tail held
  have two: "?two = sort_key timestamp
      [SensorSample 3 (JStr ''5.09'') (JStr ''nominal''),
       SensorSample 2 (JStr ''5.07'') (JStr ''nominal'')]"
    by simp
  from r(1) t(1) one held show ?thesis
    by simp
qed

text \<open>
  The claim as stated fails: when one more row than the limit is published for the query,
  the call returns one more sample than the limit.
\<close>

theorem sample_limit_exceeded_counterexample:
  "fst (sensor_history history_env1 ''anc_mean_wind_speed'' 0 100 (JBool False) 10
          (history_events 2 (replicate (MAX_SAMPLES_PER_HISTORY_QUERY + 1) sample_row))
          (init True))
     = Returned (replicate (MAX_SAMPLES_PER_HISTORY_QUERY + 1)
                   (SensorSample 2 (JStr ''5.07'') (JStr ''nominal''))) \<and>
   MAX_SAMPLES_PER_HISTORY_QUERY
     < length (replicate (MAX_SAMPLES_PER_HISTORY_QUERY + 1)
                 (SensorSample 2 (JStr ''5.07'') (JStr ''nominal'')))"
proof
  show "fst (sensor_history history_env1 ''anc_mean_wind_speed'' 0 100 (JBool False) 10
          (history_events 2 (replicate (MAX_SAMPLES_PER_HISTORY_QUERY + 1) sample_row))
          (init True))
     = Returned (replicate (MAX_SAMPLES_PER_HISTORY_QUERY + 1)
                   (SensorSample 2 (JStr ''5.07'') (JStr ''nominal'')))"
    by (rule flood_returned) simp
  show "MAX_SAMPLES_PER_HISTORY_QUERY
     < length (replicate (MAX_SAMPLES_PER_HISTORY_QUERY + 1)
                 (SensorSample 2 (JStr ''5.07'') (JStr ''nominal'')))"
    by simp
qed

end
